theory Spec2Isabelle
  imports Complex_Main "HOL-Library.Multiset" "HOL-Library.Sublist"
    "HOL-Library.AList"
begin

section \<open>Data model\<close>

text \<open>
  Articles are Python dictionaries (\<^verbatim>\<open>Dict[str, Any]\<close>). The operations verified here
  read two of their keys, \<^verbatim>\<open>link\<close> and \<^verbatim>\<open>relevance\<close>, both strings in the upstream
  API's schema. A key that is absent, or present with the JSON value null, is \<open>None\<close>,
  so the empty dictionary has \<open>None\<close> everywhere; \<^verbatim>\<open>article_id\<close> and \<^verbatim>\<open>title\<close> stand
  for the keys that are passed through unread.
\<close>

record article =
  article_id :: "string option"
  title :: "string option"
  link :: "string option"
  relevance :: "string option"

text \<open>
  Python truthiness of an optional string and of an optional list: \<^verbatim>\<open>None\<close> and the
  empty value are false.
\<close>

definition truthy :: "'a list option \<Rightarrow> bool" where
  "truthy v = (case v of None \<Rightarrow> False | Some s \<Rightarrow> s \<noteq> [])"

section \<open>Fetcher: removal of duplicates (news_fetcher.py)\<close>

text \<open>
  \<^verbatim>\<open>link = article.get("link", "")\<close>: the default \<^verbatim>\<open>""\<close> for an absent key. A null
  link is as falsy as the empty string, so both read as \<open>''''\<close> in the test that follows.
\<close>

definition get_link :: "article \<Rightarrow> string" where
  "get_link a = (case link a of None \<Rightarrow> [] | Some l \<Rightarrow> l)"

text \<open>
  The loop of \<^verbatim>\<open>_remove_duplicates\<close>, with its two locals \<^verbatim>\<open>seen_links\<close> and
  \<^verbatim>\<open>unique\<close>:
  \<^verbatim>\<open>
    for article in articles:
        link = article.get("link", "")
        if link and link not in seen_links:
            seen_links.add(link)
            unique.append(article)
  \<close>
\<close>

fun remove_duplicates_loop :: "string set \<Rightarrow> article list \<Rightarrow> article list \<Rightarrow> article list" where
  "remove_duplicates_loop seen_links unique [] = unique"
| "remove_duplicates_loop seen_links unique (a # articles) =
     (let l = get_link a in
      if l \<noteq> [] \<and> l \<notin> seen_links
      then remove_duplicates_loop (insert l seen_links) (unique @ [a]) articles
      else remove_duplicates_loop seen_links unique articles)"

definition remove_duplicates :: "article list \<Rightarrow> article list" where
  "remove_duplicates articles = remove_duplicates_loop {} [] articles"

text \<open>The positions of an article list that hold the first occurrence of a non-empty link.\<close>

definition first_occurrences :: "article list \<Rightarrow> nat set" where
  "first_occurrences xs =
     {i. i < length xs \<and> get_link (xs ! i) \<noteq> [] \<and>
         (\<forall>j < i. get_link (xs ! j) \<noteq> get_link (xs ! i))}"

definition nonempty_links :: "article list \<Rightarrow> string set" where
  "nonempty_links xs = {l \<in> get_link ` set xs. l \<noteq> []}"

definition empty_link_entries :: "article list \<Rightarrow> article list" where
  "empty_link_entries xs = filter (\<lambda>a. get_link a = []) xs"

section \<open>Fetcher: pagination (news_fetcher.py)\<close>

text \<open>
  What one request to the news API comes to: \<^verbatim>\<open>client.get\<close> or \<^verbatim>\<open>response.json()\<close>
  raises an exception with the message \<open>e\<close>; \<^verbatim>\<open>raise_for_status\<close> raises for the status
  code whose decimal text is \<open>code\<close>; the body has the status \<^verbatim>\<open>"error"\<close>, with or without
  a message; or the body is a page: its \<^verbatim>\<open>results\<close> (the empty list when absent) and its
  \<^verbatim>\<open>nextPage\<close> cursor. The API is a function from the number of the request and the
  cursor it carries (\<open>None\<close> on the first) to such an outcome.
\<close>

datatype response =
    Request_raises string
  | Http_status_error string
  | Api_error "string option"
  | Page "article list" "string option"

type_synonym news_api = "nat \<Rightarrow> string option \<Rightarrow> response"

text \<open>
  The loop of \<^verbatim>\<open>fetch_articles\<close>. The progress callback works on a state \<open>'s\<close> that the
  Fetcher knows nothing about; a callback that raises leaves that state as it was, and
  its exception, like every other one, leaves the loop (the handlers log and raise
  again, \<^verbatim>\<open>HTTPStatusError\<close> as \<^verbatim>\<open>Exception(f"HTTP {code}")\<close>).
  \<^verbatim>\<open>
    while page_count < max_pages:
        if next_page: params["page"] = next_page
        response = await client.get(self.base_url, params=params)
        response.raise_for_status()
        data = response.json()
        if data.get("status") == "error":
            error_msg = data.get("results", {}).get("message", "Unknown error")
            raise Exception(f"API error: {error_msg}")
        results = data.get("results", [])
        if not results: break
        all_articles.extend(results)
        if progress_callback:
            await progress_callback(len(all_articles))
        next_page = data.get("nextPage")
        if not next_page: break
        page_count += 1
  \<close>
\<close>

function fetch_pages ::
  "news_api \<Rightarrow> (nat \<Rightarrow> 's \<Rightarrow> string + 's) option \<Rightarrow> int \<Rightarrow> nat \<Rightarrow> string option
     \<Rightarrow> article list \<Rightarrow> 's \<Rightarrow> (string + article list) \<times> 's" where
  "fetch_pages api progress_callback max_pages page_count next_page all_articles st =
     (if int page_count < max_pages
      then (case api page_count (if truthy next_page then next_page else None) of
              Request_raises e \<Rightarrow> (Inl e, st)
            | Http_status_error code \<Rightarrow> (Inl (''HTTP '' @ code), st)
            | Api_error msg \<Rightarrow>
                (Inl (''API error: '' @ (case msg of None \<Rightarrow> ''Unknown error'' | Some m \<Rightarrow> m)), st)
            | Page results next_page' \<Rightarrow>
                if results = [] then (Inr all_articles, st)
                else
                  (case (case progress_callback of
                           None \<Rightarrow> Inr st
                         | Some cb \<Rightarrow> cb (length (all_articles @ results)) st) of
                     Inl e \<Rightarrow> (Inl e, st)
                   | Inr st' \<Rightarrow>
                       if \<not> truthy next_page' then (Inr (all_articles @ results), st')
                       else fetch_pages api progress_callback max_pages (Suc page_count)
                              next_page' (all_articles @ results) st'))
      else (Inr all_articles, st))"
  by pat_completeness auto
termination
  by (relation "measure (\<lambda>(api, cb, max_pages, page_count, rest). nat (max_pages - int page_count))")
    auto

declare fetch_pages.simps [simp del]

definition fetch_articles ::
  "news_api \<Rightarrow> (nat \<Rightarrow> 's \<Rightarrow> string + 's) option \<Rightarrow> int \<Rightarrow> 's \<Rightarrow> (string + article list) \<times> 's" where
  "fetch_articles api progress_callback max_pages st =
     (case fetch_pages api progress_callback max_pages 0 None [] st of
        (Inl e, st') \<Rightarrow> (Inl e, st')
      | (Inr all_articles, st') \<Rightarrow> (Inr (remove_duplicates all_articles), st'))"

section \<open>Analyzer: relevance order (ai_analyzer.py)\<close>

text \<open>
  \<^verbatim>\<open>relevance_order = {"Very Relevant": 0, "Relevant": 1, "Not Relevant": 2}\<close> and the
  sort key \<^verbatim>\<open>relevance_order.get(x.get("relevance", ""), 3)\<close>.
\<close>

definition relevance_order :: "string \<rightharpoonup> nat" where
  "relevance_order = [''Very Relevant'' \<mapsto> 0, ''Relevant'' \<mapsto> 1, ''Not Relevant'' \<mapsto> 2]"

definition relevance_key :: "article \<Rightarrow> nat" where
  "relevance_key x =
     (case relevance x of
        None \<Rightarrow> 3
      | Some r \<Rightarrow> (case relevance_order r of None \<Rightarrow> 3 | Some k \<Rightarrow> k))"

text \<open>
  \<^verbatim>\<open>all_classified.sort(key=...)\<close>: Python's list sort is stable, and a stable sort by a
  key has one possible result, the one \<^const>\<open>sort_key\<close> computes.
\<close>

definition sort_by_relevance :: "article list \<Rightarrow> article list" where
  "sort_by_relevance all_classified = sort_key relevance_key all_classified"

section \<open>Analyzer: chunked classification (ai_analyzer.py)\<close>

text \<open>
  What \<^verbatim>\<open>json.loads\<close> can return on a text it accepts. The elements of an array are
  objects (dictionaries, read as articles) or anything else; a text that is not an array
  is a string, an object (of which only the keys matter below) or a scalar (a number,
  \<^verbatim>\<open>true\<close>, \<^verbatim>\<open>false\<close>, \<^verbatim>\<open>null\<close>).
\<close>

datatype json_item = Obj article | Non_obj

datatype json_value =
    Json_array "json_item list"
  | Json_string string
  | Json_object "string list"
  | Json_scalar

text \<open>
  The completion service as the client sees it. One request carries the prompts built
  from one chunk (the query and the extra topics are the same for all requests of an
  analysis); the service either makes the call raise or answers with a message whose
  content is a text or \<^verbatim>\<open>None\<close>. \<open>sent\<close> is the sequence of requests made so far and
  \<open>reply k chunk\<close> the outcome of request number \<open>k\<close> when it carries \<open>chunk\<close>.
\<close>

datatype completion = Raises string | Content "string option"

record llm_client =
  sent :: "article list list"
  reply :: "nat \<Rightarrow> article list \<Rightarrow> completion"

definition chat_completions_create :: "llm_client \<Rightarrow> article list \<Rightarrow> completion \<times> llm_client" where
  "chat_completions_create cl chunk =
     (reply cl (length (sent cl)) chunk, cl\<lparr>sent := sent cl @ [chunk]\<rparr>)"

text \<open>\<^verbatim>\<open>str.strip()\<close>, on the ASCII whitespace characters.\<close>

definition is_space :: "char \<Rightarrow> bool" where
  "is_space c = (c \<in> {CHR 0x20, CHR 0x09, CHR 0x0A, CHR 0x0B, CHR 0x0C, CHR 0x0D,
                       CHR 0x1C, CHR 0x1D, CHR 0x1E, CHR 0x1F})"

definition strip :: "string \<Rightarrow> string" where
  "strip s = rev (dropWhile is_space (rev (dropWhile is_space s)))"

text \<open>
  \<^verbatim>\<open>re.search(r'\[.*\]', response_text, re.DOTALL)\<close>: the match starts at the first
  opening bracket that has a closing bracket after it, which is the first opening
  bracket of the text if any has one, and the greedy \<^verbatim>\<open>.*\<close> runs to the last closing
  bracket of the text.
\<close>

definition re_search_array :: "string \<Rightarrow> string option" where
  "re_search_array response_text =
     (let from_open = dropWhile (\<lambda>c. c \<noteq> CHR ''['') response_text in
      if CHR '']'' \<in> set from_open
      then Some (rev (dropWhile (\<lambda>c. c \<noteq> CHR '']'') (rev from_open)))
      else None)"

text \<open>
  \<^verbatim>\<open>_extract_json\<close>; \<open>json_loads\<close> stands for \<^verbatim>\<open>json.loads\<close>, with \<open>None\<close> where it
  raises \<^verbatim>\<open>JSONDecodeError\<close>:
  \<^verbatim>\<open>
    try:
        json_match = re.search(r'\[.*\]', response_text, re.DOTALL)
        if json_match:
            json_str = json_match.group(0)
            articles = json.loads(json_str)
            return articles
        else:
            articles = json.loads(response_text)
            return articles
    except json.JSONDecodeError as e:
        return []
  \<close>
\<close>

definition json_candidate :: "string \<Rightarrow> string" where
  "json_candidate response_text =
     (case re_search_array response_text of Some json_str \<Rightarrow> json_str | None \<Rightarrow> response_text)"

definition extract_json :: "(string \<Rightarrow> json_value option) \<Rightarrow> string \<Rightarrow> json_value" where
  "extract_json json_loads response_text =
     (case json_loads (json_candidate response_text) of
        Some articles \<Rightarrow> articles
      | None \<Rightarrow> Json_array [])"

text \<open>
  \<^verbatim>\<open>_analyze_chunk\<close>: any exception of the request is logged and raised again; an empty
  or missing content gives \<^verbatim>\<open>[]\<close>; otherwise the stripped text goes to
  \<^verbatim>\<open>_extract_json\<close>.
\<close>

definition analyze_chunk ::
  "(string \<Rightarrow> json_value option) \<Rightarrow> llm_client \<Rightarrow> article list \<Rightarrow> (string + json_value) \<times> llm_client" where
  "analyze_chunk json_loads cl chunk =
     (case chat_completions_create cl chunk of
        (Raises e, cl') \<Rightarrow> (Inl e, cl')
      | (Content response_text, cl') \<Rightarrow>
          if \<not> truthy response_text then (Inr (Json_array []), cl')
          else (Inr (extract_json json_loads (strip (the response_text))), cl'))"

text \<open>
  \<^verbatim>\<open>all_classified.extend(classified)\<close>: an array adds its elements, a string its
  characters and an object its keys (none of them a dictionary), and a scalar is not
  iterable, which raises \<^verbatim>\<open>TypeError\<close>.
\<close>

definition extend_with :: "json_value \<Rightarrow> string + json_item list" where
  "extend_with classified =
     (case classified of
        Json_array items \<Rightarrow> Inr items
      | Json_string s \<Rightarrow> Inr (map (\<lambda>c. Non_obj) s)
      | Json_object keys \<Rightarrow> Inr (map (\<lambda>k. Non_obj) keys)
      | Json_scalar \<Rightarrow> Inl ''TypeError'')"

text \<open>
  The loop of \<^verbatim>\<open>analyze_articles\<close> over the chunks:
  \<^verbatim>\<open>
    try:
        classified = await self._analyze_chunk(chunk, system_prompt, query)
        all_classified.extend(classified)
    except Exception as e:
        logger.error(...)
        continue
  \<close>
\<close>

fun analyze_chunks ::
  "(string \<Rightarrow> json_value option) \<Rightarrow> llm_client \<Rightarrow> json_item list \<Rightarrow> article list list
     \<Rightarrow> llm_client \<times> json_item list" where
  "analyze_chunks json_loads cl all_classified [] = (cl, all_classified)"
| "analyze_chunks json_loads cl all_classified (chunk # chunks) =
     (case analyze_chunk json_loads cl chunk of
        (Inl e, cl') \<Rightarrow> analyze_chunks json_loads cl' all_classified chunks
      | (Inr classified, cl') \<Rightarrow>
          (case extend_with classified of
             Inl e \<Rightarrow> analyze_chunks json_loads cl' all_classified chunks
           | Inr items \<Rightarrow> analyze_chunks json_loads cl' (all_classified @ items) chunks))"

text \<open>
  \<^verbatim>\<open>for i in range(0, len(articles), chunk_size): chunk = articles[i:i + chunk_size]\<close>.
  A negative step makes the range empty; a zero step raises \<^verbatim>\<open>ValueError\<close> (see
  \<open>analyze_articles\<close>).
\<close>

definition chunk_starts :: "nat \<Rightarrow> int \<Rightarrow> nat list" where
  "chunk_starts n chunk_size =
     (if chunk_size > 0
      then map (\<lambda>j. j * nat chunk_size) [0..<(n + nat chunk_size - 1) div nat chunk_size]
      else [])"

definition chunk_list :: "int \<Rightarrow> article list \<Rightarrow> article list list" where
  "chunk_list chunk_size articles =
     map (\<lambda>i. take (nat chunk_size) (drop i articles)) (chunk_starts (length articles) chunk_size)"

text \<open>
  The sort that ends \<^verbatim>\<open>analyze_articles\<close> calls \<^verbatim>\<open>x.get\<close> on every element, which
  raises \<^verbatim>\<open>AttributeError\<close> on an element that is not a dictionary; that exception leaves
  \<^verbatim>\<open>analyze_articles\<close>.
\<close>

fun the_articles :: "json_item list \<Rightarrow> article list option" where
  "the_articles [] = Some []"
| "the_articles (Obj a # items) = map_option ((#) a) (the_articles items)"
| "the_articles (Non_obj # items) = None"

definition sort_classified :: "json_item list \<Rightarrow> string + article list" where
  "sort_classified all_classified =
     (case the_articles all_classified of
        None \<Rightarrow> Inl ''AttributeError''
      | Some articles \<Rightarrow> Inr (sort_by_relevance articles))"

definition analyze_articles ::
  "(string \<Rightarrow> json_value option) \<Rightarrow> llm_client \<Rightarrow> article list \<Rightarrow> int
     \<Rightarrow> (string + article list) \<times> llm_client" where
  "analyze_articles json_loads cl articles chunk_size =
     (if chunk_size = 0 then (Inl ''ValueError'', cl)
      else
        let (cl', all_classified) = analyze_chunks json_loads cl [] (chunk_list chunk_size articles)
        in (sort_classified all_classified, cl'))"

text \<open>
  What one completion adds to \<^verbatim>\<open>all_classified\<close>, and when a chunk fails: its request
  raises, or its text is not accepted by \<^verbatim>\<open>json.loads\<close>.
\<close>

definition contribution :: "(string \<Rightarrow> json_value option) \<Rightarrow> completion \<Rightarrow> json_item list" where
  "contribution json_loads r =
     (case r of
        Raises e \<Rightarrow> []
      | Content response_text \<Rightarrow>
          if \<not> truthy response_text then []
          else (case extend_with (extract_json json_loads (strip (the response_text))) of
                  Inl e \<Rightarrow> [] | Inr items \<Rightarrow> items))"


definition contributions ::
  "(string \<Rightarrow> json_value option) \<Rightarrow> llm_client \<Rightarrow> article list list \<Rightarrow> json_item list list" where
  "contributions json_loads cl chunks =
     map (\<lambda>(k, chunk). contribution json_loads (reply cl k chunk))
       (enumerate (length (sent cl)) chunks)"

section \<open>Job manager (models.py, job_manager.py)\<close>

text \<open>
  A \<^verbatim>\<open>datetime\<close> is a point on the time line; only the order of two of them is ever
  used, so an integer count of clock ticks stands for it.
\<close>

type_synonym timestamp = int

text \<open>\<^verbatim>\<open>class JobStatus(BaseModel)\<close>, field by field.\<close>

record job_status =
  job_id :: string
  status :: string
  progress :: int
  created_at :: timestamp
  updated_at :: timestamp
  query :: string
  total_articles :: "int option"
  error :: "string option"
  results :: "article list option"

text \<open>
  The directory \<^verbatim>\<open>results/\<close>. A file is either a JSON object, of which the keys
  \<^verbatim>\<open>query\<close>, \<^verbatim>\<open>total_articles\<close> and \<^verbatim>\<open>articles\<close> may each be absent, or anything else
  (a CSV or XLSX export, or text that \<^verbatim>\<open>json.load\<close> rejects). The directory is a list of
  named files in the order \<^verbatim>\<open>os.listdir\<close> reports them.
\<close>

record json_doc =
  doc_job_id :: "string option"
  doc_query :: "string option"
  doc_timestamp :: "timestamp option"
  doc_total_articles :: "int option"
  doc_articles :: "article list option"

datatype file_content = Json_object json_doc | Other_bytes

record stored_file =
  content :: file_content
  mtime :: timestamp

type_synonym directory = "(string \<times> stored_file) list"

text \<open>
  The state the \<^verbatim>\<open>JobManager\<close> works on: its dictionary \<^verbatim>\<open>self.jobs\<close> (a Python
  dictionary keeps its keys in insertion order, so it is an association list with
  distinct keys), its capacity \<^verbatim>\<open>self.max_jobs\<close>, the results directory, and whether
  that directory accepts a write (when it does not, \<^verbatim>\<open>open\<close> raises inside
  \<^verbatim>\<open>_save_results\<close>).
\<close>

record job_manager =
  jobs :: "(string \<times> job_status) list"
  max_jobs :: nat
  results_dir :: directory
  writable :: bool

text \<open>\<^verbatim>\<open>f"results/{job_id}.{ext}"\<close>, as a name inside the results directory.\<close>

definition result_file :: "string \<Rightarrow> string \<Rightarrow> string" where
  "result_file jid ext = jid @ ''.'' @ ext"

text \<open>
  \<^verbatim>\<open>delete_job\<close>:
  \<^verbatim>\<open>
    if job_id in self.jobs:
        del self.jobs[job_id]
        for ext in ['json', 'csv', 'xlsx']:
            file_path = f"results/{job_id}.{ext}"
            if os.path.exists(file_path):
                os.remove(file_path)
        return True
    return False
  \<close>
\<close>

definition remove_if_exists :: "string \<Rightarrow> directory \<Rightarrow> directory" where
  "remove_if_exists name dir =
     (if name \<in> fst ` set dir then AList.delete name dir else dir)"

definition delete_job :: "job_manager \<Rightarrow> string \<Rightarrow> bool \<times> job_manager" where
  "delete_job jm jid =
     (if jid \<in> fst ` set (jobs jm)
      then (True, jm\<lparr>jobs := AList.delete jid (jobs jm),
                      results_dir := fold (\<lambda>ext. remove_if_exists (result_file jid ext))
                                       [''json'', ''csv'', ''xlsx''] (results_dir jm)\<rparr>)
      else (False, jm))"

text \<open>
  \<^verbatim>\<open>_cleanup_old_jobs\<close>:
  \<^verbatim>\<open>
    if len(self.jobs) <= self.max_jobs:
        return
    sorted_jobs = sorted(self.jobs.items(), key=lambda x: x[1].created_at)
    jobs_to_remove = len(self.jobs) - self.max_jobs
    for i in range(jobs_to_remove):
        job_id = sorted_jobs[i][0]
        self.delete_job(job_id)
  \<close>
  \<^verbatim>\<open>sorted\<close> is stable. \<^verbatim>\<open>jobs_to_remove\<close> is at most the length of \<^verbatim>\<open>sorted_jobs\<close>,
  so every index is in range and the loop runs over a prefix of the sorted list.
\<close>

definition sorted_jobs :: "job_manager \<Rightarrow> (string \<times> job_status) list" where
  "sorted_jobs jm = sort_key (\<lambda>x. created_at (snd x)) (jobs jm)"

definition cleanup_old_jobs :: "job_manager \<Rightarrow> job_manager" where
  "cleanup_old_jobs jm =
     (if length (jobs jm) \<le> max_jobs jm then jm
      else
        let jobs_to_remove = length (jobs jm) - max_jobs jm in
        fold (\<lambda>x m. snd (delete_job m (fst x))) (take jobs_to_remove (sorted_jobs jm)) jm)"

text \<open>
  \<^verbatim>\<open>create_job(job_id, request)\<close>; of the request only \<^verbatim>\<open>request.query\<close> is read, and
  \<open>now\<close> is what \<^verbatim>\<open>datetime.now()\<close> returns.
\<close>

definition new_job :: "string \<Rightarrow> string \<Rightarrow> timestamp \<Rightarrow> job_status" where
  "new_job jid q now =
     \<lparr>job_id = jid, status = ''created'', progress = 0, created_at = now, updated_at = now,
      query = q, total_articles = None, error = None, results = None\<rparr>"

definition create_job :: "job_manager \<Rightarrow> string \<Rightarrow> string \<Rightarrow> timestamp \<Rightarrow> job_status \<times> job_manager" where
  "create_job jm jid request_query now =
     (let job = new_job jid request_query now;
          jm1 = jm\<lparr>jobs := AList.update jid job (jobs jm)\<rparr>
      in (job, if length (jobs jm1) > max_jobs jm1 then cleanup_old_jobs jm1 else jm1))"

definition get_job :: "job_manager \<Rightarrow> string \<Rightarrow> job_status option" where
  "get_job jm jid = map_of (jobs jm) jid"

text \<open>
  \<^verbatim>\<open>_save_results\<close>: the snapshot written to \<^verbatim>\<open>results/{job_id}.json\<close>. Any exception
  of the write is caught and logged, and the directory is then as it was.
\<close>

definition snapshot :: "string \<Rightarrow> article list \<Rightarrow> string \<Rightarrow> timestamp \<Rightarrow> json_doc" where
  "snapshot jid rs q now =
     \<lparr>doc_job_id = Some jid, doc_query = Some q, doc_timestamp = Some now,
      doc_total_articles = Some (int (length rs)), doc_articles = Some rs\<rparr>"

definition save_results :: "job_manager \<Rightarrow> string \<Rightarrow> article list \<Rightarrow> string \<Rightarrow> timestamp \<Rightarrow> job_manager" where
  "save_results jm jid rs q now =
     (if writable jm
      then jm\<lparr>results_dir :=
                AList.update (result_file jid ''json'')
                  \<lparr>content = Json_object (snapshot jid rs q now), mtime = now\<rparr> (results_dir jm)\<rparr>
      else jm)"

text \<open>
  The arguments of one \<^verbatim>\<open>update_job\<close> call; each defaults to \<^verbatim>\<open>None\<close>.
\<close>

record update_args =
  status_arg :: "string option"
  progress_arg :: "int option"
  total_articles_arg :: "int option"
  error_arg :: "string option"
  results_arg :: "article list option"

definition no_args :: update_args where
  "no_args = \<lparr>status_arg = None, progress_arg = None, total_articles_arg = None,
              error_arg = None, results_arg = None\<rparr>"

text \<open>
  \<^verbatim>\<open>update_job\<close>:
  \<^verbatim>\<open>
    job = self.jobs.get(job_id)
    if not job:
        return None
    if status:
        job.status = status
    if progress is not None:
        job.progress = progress
    if total_articles is not None:
        job.total_articles = total_articles
    if error:
        job.error = error
    if results is not None:
        job.results = results
    job.updated_at = datetime.now()
    if status == "completed" and results:
        self._save_results(job_id, results, job.query)
    return job
  \<close>
  The job object is mutated in place, so its position in the dictionary is kept.
\<close>

definition apply_args :: "update_args \<Rightarrow> timestamp \<Rightarrow> job_status \<Rightarrow> job_status" where
  "apply_args u now job =
     (let job1 = (if truthy (status_arg u) then job\<lparr>status := the (status_arg u)\<rparr> else job);
          job2 = (case progress_arg u of Some p \<Rightarrow> job1\<lparr>progress := p\<rparr> | None \<Rightarrow> job1);
          job3 = (case total_articles_arg u of Some n \<Rightarrow> job2\<lparr>total_articles := Some n\<rparr> | None \<Rightarrow> job2);
          job4 = (if truthy (error_arg u) then job3\<lparr>error := error_arg u\<rparr> else job3);
          job5 = (case results_arg u of Some rs \<Rightarrow> job4\<lparr>results := Some rs\<rparr> | None \<Rightarrow> job4)
      in job5\<lparr>updated_at := now\<rparr>)"

definition update_job :: "job_manager \<Rightarrow> string \<Rightarrow> update_args \<Rightarrow> timestamp \<Rightarrow> job_status option \<times> job_manager" where
  "update_job jm jid u now =
     (case map_of (jobs jm) jid of
        None \<Rightarrow> (None, jm)
      | Some job \<Rightarrow>
          let job' = apply_args u now job;
              jm1 = jm\<lparr>jobs := AList.update jid job' (jobs jm)\<rparr>;
              jm2 = (if status_arg u = Some ''completed'' \<and> truthy (results_arg u)
                     then save_results jm1 jid (the (results_arg u)) (query job') now
                     else jm1)
          in (Some job', jm2))"

text \<open>
  \<^verbatim>\<open>str.replace(old, new)\<close> for a non-empty \<^verbatim>\<open>old\<close>: every occurrence, left to right,
  without overlap.
\<close>

function str_replace :: "string \<Rightarrow> string \<Rightarrow> string \<Rightarrow> string" where
  "str_replace old new [] = []"
| "str_replace old new (c # cs) =
     (if old \<noteq> [] \<and> prefix old (c # cs)
      then new @ str_replace old new (drop (length old) (c # cs))
      else c # str_replace old new cs)"
  by pat_completeness auto
termination
  by (relation "measure (\<lambda>(old, new, s). length s)") (auto simp: neq_Nil_conv)

text \<open>
  \<^verbatim>\<open>_load_existing_results\<close>, run once by \<^verbatim>\<open>__init__\<close>:
  \<^verbatim>\<open>
    for filename in os.listdir("results"):
        if filename.endswith(".json"):
            job_id = filename.replace(".json", "")
            try:
                data = json.load(f)
                modified_time = datetime.fromtimestamp(file_stat.st_mtime)
                job = JobStatus(job_id=job_id, status="completed", progress=100,
                    created_at=modified_time, updated_at=modified_time,
                    query=data.get("query", "Unknown"),
                    total_articles=data.get("total_articles", len(data.get("articles", []))),
                    error=None, results=data.get("articles", []))
                self.jobs[job_id] = job
            except Exception as e:
                logger.error(...)
  \<close>
  A file that is not a JSON object raises inside the \<^verbatim>\<open>try\<close> and is skipped.
\<close>

definition loaded_job :: "string \<Rightarrow> json_doc \<Rightarrow> timestamp \<Rightarrow> job_status" where
  "loaded_job jid data modified_time =
     (let articles = (case doc_articles data of None \<Rightarrow> [] | Some a \<Rightarrow> a) in
      \<lparr>job_id = jid, status = ''completed'', progress = 100,
       created_at = modified_time, updated_at = modified_time,
       query = (case doc_query data of None \<Rightarrow> ''Unknown'' | Some q \<Rightarrow> q),
       total_articles = Some (case doc_total_articles data of
                                None \<Rightarrow> int (length articles) | Some n \<Rightarrow> n),
       error = None, results = Some articles\<rparr>)"

definition load_file :: "string \<times> stored_file \<Rightarrow> job_manager \<Rightarrow> job_manager" where
  "load_file entry jm =
     (let filename = fst entry in
      if suffix ''.json'' filename
      then (let jid = str_replace ''.json'' [] filename in
            case content (snd entry) of
              Json_object data \<Rightarrow>
                jm\<lparr>jobs := AList.update jid (loaded_job jid data (mtime (snd entry))) (jobs jm)\<rparr>
            | Other_bytes \<Rightarrow> jm)
      else jm)"

definition load_existing_results :: "job_manager \<Rightarrow> job_manager" where
  "load_existing_results jm = fold load_file (results_dir jm) jm"

text \<open>\<^verbatim>\<open>JobManager.__init__(max_jobs)\<close> on a given results directory.\<close>

definition JobManager_init :: "nat \<Rightarrow> directory \<Rightarrow> bool \<Rightarrow> job_manager" where
  "JobManager_init n dir w =
     load_existing_results \<lparr>jobs = [], max_jobs = n, results_dir = dir, writable = w\<rparr>"

text \<open>
  The entry of a table that \<^verbatim>\<open>sorted(..., key=created_at)\<close> puts first, and the three
  result files of a job.
\<close>

definition oldest_job :: "(string \<times> job_status) list \<Rightarrow> string \<times> job_status" where
  "oldest_job table = hd (sort_key (\<lambda>x. created_at (snd x)) table)"

definition result_files :: "string \<Rightarrow> string set" where
  "result_files jid = {result_file jid ''json'', result_file jid ''csv'', result_file jid ''xlsx''}"

text \<open>
  What the startup scan makes of a directory entry: the entries it turns into a job, and
  the id it gives that job.
\<close>

definition loadable :: "string \<times> stored_file \<Rightarrow> bool" where
  "loadable entry = (suffix ''.json'' (fst entry) \<and> content (snd entry) \<noteq> Other_bytes)"

definition loaded_id :: "string \<times> stored_file \<Rightarrow> string" where
  "loaded_id entry = str_replace ''.json'' [] (fst entry)"

text \<open>A results directory that holds \<open>n\<close> snapshots, of the jobs \<^verbatim>\<open>a\<close>, \<^verbatim>\<open>aa\<close>, \<^verbatim>\<open>aaa\<close>, ...\<close>

definition snapshot_store :: "nat \<Rightarrow> directory" where
  "snapshot_store n =
     map (\<lambda>k. (result_file (replicate (Suc k) CHR ''a'') ''json'',
               \<lparr>content = Json_object (snapshot (replicate (Suc k) CHR ''a'') [] ''q'' 0),
                mtime = int k\<rparr>)) [0..<n]"

section \<open>Floating-point arithmetic of the progress formula (main.py)\<close>

text \<open>
  \<^verbatim>\<open>int((article_count / (request.size * request.max_pages)) * 30)\<close> divides two
  integers into a binary64 float, multiplies that float by 30 and truncates. Both
  operations return the exact result rounded to the nearest float, ties to the even
  significand. A float is modelled by the rational it denotes, with a significand of 53
  bits; the exponent range of binary64 is not modelled (the operands are lengths of
  lists and page counts, far from its ends).
\<close>

definition round_half_even :: "rat \<Rightarrow> int" where
  "round_half_even x =
     (let f = \<lfloor>x\<rfloor>; r = x - of_int f in
      if r < 1 / 2 then f
      else if 1 / 2 < r then f + 1
      else if even f then f else f + 1)"

text \<open>The number of binary digits of a positive integer.\<close>

function bit_length :: "int \<Rightarrow> nat" where
  "bit_length n = (if n \<le> 0 then 0 else Suc (bit_length (n div 2)))"
  by pat_completeness auto
termination
  by (relation "measure nat") auto

declare bit_length.simps [simp del]

text \<open>The exponent \<open>e\<close> of a positive rational: \<open>2 ^ e \<le> q < 2 ^ (e + 1)\<close>.\<close>

definition binade :: "rat \<Rightarrow> int" where
  "binade q =
     (let (a, b) = quotient_of q;
          t = int (bit_length a) - int (bit_length b)
      in if 2 powi t \<le> q then t else t - 1)"

definition round_double :: "rat \<Rightarrow> rat" where
  "round_double q =
     (if q = 0 then 0
      else if 0 < q
      then of_int (round_half_even (q * 2 powi (52 - binade q))) * 2 powi (binade q - 52)
      else - (of_int (round_half_even (- q * 2 powi (52 - binade (- q)))) * 2 powi (binade (- q) - 52)))"

text \<open>\<^verbatim>\<open>a / b\<close> on integers (for \<open>b \<noteq> 0\<close>), \<^verbatim>\<open>x * 30\<close> on a float, and \<^verbatim>\<open>int(x)\<close>.\<close>

definition true_div :: "int \<Rightarrow> int \<Rightarrow> rat" where
  "true_div a b = round_double (of_int a / of_int b)"

definition float_mul :: "rat \<Rightarrow> rat \<Rightarrow> rat" where
  "float_mul x y = round_double (x * y)"

definition py_int :: "rat \<Rightarrow> int" where
  "py_int x = (if 0 \<le> x then \<lfloor>x\<rfloor> else \<lceil>x\<rceil>)"

definition fetch_progress :: "int \<Rightarrow> int \<Rightarrow> int" where
  "fetch_progress article_count expected = 10 + py_int (float_mul (true_div article_count expected) 30)"

section \<open>The pipeline task (main.py)\<close>

text \<open>
  Of a \<^verbatim>\<open>SearchRequest\<close> the task reads the query, the page size and the page count (the
  languages, categories and credentials only travel to the two remote services).
\<close>

record search_request =
  req_query :: string
  req_size :: int
  req_max_pages :: int

text \<open>
  What surrounds one task: the news API, the completion service, \<^verbatim>\<open>json.loads\<close>, and
  the clock, \<open>clock k\<close> being the time that \<^verbatim>\<open>datetime.now()\<close> returns in the \<open>k\<close>-th
  \<^verbatim>\<open>update_job\<close> call of the task.
\<close>

record services =
  news :: news_api
  completions :: llm_client
  json_loads :: "string \<Rightarrow> json_value option"
  clock :: "nat \<Rightarrow> timestamp"

text \<open>
  The task is followed through the states of the job manager that it produces: a run
  is the list of these states, oldest first, beginning with the state at the start.
  \<open>do_update\<close> is one \<^verbatim>\<open>job_manager.update_job(job_id, ...)\<close> call. The task is
  followed alone: what other tasks or requests do to the manager while this one waits
  for a remote service is not part of its run.
\<close>

type_synonym run = "job_manager list"

definition do_update :: "services \<Rightarrow> string \<Rightarrow> update_args \<Rightarrow> run \<Rightarrow> run" where
  "do_update sv jid u r = r @ [snd (update_job (last r) jid u (clock sv (length r)))]"

text \<open>
  \<^verbatim>\<open>update_fetch_progress\<close>, the callback handed to the Fetcher; the division raises
  \<^verbatim>\<open>ZeroDivisionError\<close> on a zero divisor, before \<^verbatim>\<open>update_job\<close> is called.
  \<^verbatim>\<open>
    job_manager.update_job(job_id, status="fetching",
        progress=10 + int((article_count / (request.size * request.max_pages)) * 30),
        total_articles=article_count)
  \<close>
\<close>

definition fetch_progress_args :: "search_request \<Rightarrow> nat \<Rightarrow> update_args" where
  "fetch_progress_args request article_count =
     no_args\<lparr>status_arg := Some ''fetching'',
              progress_arg := Some (fetch_progress (int article_count)
                                      (req_size request * req_max_pages request)),
              total_articles_arg := Some (int article_count)\<rparr>"

definition update_fetch_progress ::
  "services \<Rightarrow> string \<Rightarrow> search_request \<Rightarrow> nat \<Rightarrow> run \<Rightarrow> string + run" where
  "update_fetch_progress sv jid request article_count r =
     (if req_size request * req_max_pages request = 0 then Inl ''division by zero''
      else Inr (do_update sv jid (fetch_progress_args request article_count) r))"

text \<open>
  \<^verbatim>\<open>process_news_search\<close>: the body of its \<^verbatim>\<open>try\<close>, then the handler. The body either
  returns (\<open>None\<close>) or is left by an exception, of which \<open>Some e\<close> keeps the message
  \<^verbatim>\<open>str(e)\<close>; the handler records the job as failed with that message. The two
  constructors, \<^verbatim>\<open>NewsFetcher(...)\<close> and \<^verbatim>\<open>AIAnalyzer(...)\<close>, only store their
  arguments and are left out.
  \<^verbatim>\<open>
    try:
        job_manager.update_job(job_id, status="fetching", progress=10)
        articles = await fetcher.fetch_articles(..., progress_callback=update_fetch_progress)
        if not articles:
            job_manager.update_job(job_id, status="failed", error="No articles found", progress=100)
            return
        job_manager.update_job(job_id, status="analyzing", progress=50, total_articles=len(articles))
        classified_articles = await analyzer.analyze_articles(articles=articles, ...)
        job_manager.update_job(job_id, status="completed", progress=100,
            results=classified_articles, total_articles=len(classified_articles))
    except Exception as e:
        job_manager.update_job(job_id, status="failed", error=str(e), progress=100)
  \<close>
\<close>

definition fetching_args :: update_args where
  "fetching_args = no_args\<lparr>status_arg := Some ''fetching'', progress_arg := Some 10\<rparr>"

definition failed_args :: "string \<Rightarrow> update_args" where
  "failed_args e = no_args\<lparr>status_arg := Some ''failed'', error_arg := Some e, progress_arg := Some 100\<rparr>"

definition analyzing_args :: "article list \<Rightarrow> update_args" where
  "analyzing_args articles =
     no_args\<lparr>status_arg := Some ''analyzing'', progress_arg := Some 50,
              total_articles_arg := Some (int (length articles))\<rparr>"

definition completed_args :: "article list \<Rightarrow> update_args" where
  "completed_args classified_articles =
     no_args\<lparr>status_arg := Some ''completed'', progress_arg := Some 100,
              results_arg := Some classified_articles,
              total_articles_arg := Some (int (length classified_articles))\<rparr>"

definition try_body :: "services \<Rightarrow> string \<Rightarrow> search_request \<Rightarrow> job_manager \<Rightarrow> string option \<times> run" where
  "try_body sv jid request jm =
     (let r1 = do_update sv jid fetching_args [jm]
      in case fetch_articles (news sv) (Some (update_fetch_progress sv jid request))
                (req_max_pages request) r1 of
           (Inl e, r2) \<Rightarrow> (Some e, r2)
         | (Inr articles, r2) \<Rightarrow>
             if articles = [] then (None, do_update sv jid (failed_args ''No articles found'') r2)
             else
               let r3 = do_update sv jid (analyzing_args articles) r2
               in case fst (analyze_articles (json_loads sv) (completions sv) articles 15) of
                    Inl e \<Rightarrow> (Some e, r3)
                  | Inr classified_articles \<Rightarrow>
                      (None, do_update sv jid (completed_args classified_articles) r3))"

definition process_news_search :: "services \<Rightarrow> string \<Rightarrow> search_request \<Rightarrow> job_manager \<Rightarrow> run" where
  "process_news_search sv jid request jm =
     (case try_body sv jid request jm of
        (Some e, r) \<Rightarrow> do_update sv jid (failed_args e) r
      | (None, r) \<Rightarrow> r)"

text \<open>The job \<open>jid\<close> as each state of a run has it.\<close>

definition job_trace :: "string \<Rightarrow> run \<Rightarrow> job_status option list" where
  "job_trace jid r = map (\<lambda>jm. get_job jm jid) r"

definition progress_trace :: "string \<Rightarrow> run \<Rightarrow> int list" where
  "progress_trace jid r = map (\<lambda>j. progress (the j)) (job_trace jid r)"

definition status_trace :: "string \<Rightarrow> run \<Rightarrow> string list" where
  "status_trace jid r = map (\<lambda>j. status (the j)) (job_trace jid r)"

text \<open>
  The job as the last state of a run has it, and the assumption on the news API that a
  page holds at most the number of articles that was asked for.
\<close>

definition final_job :: "string \<Rightarrow> run \<Rightarrow> job_status option" where
  "final_job jid r = get_job (last r) jid"

definition pages_within :: "news_api \<Rightarrow> int \<Rightarrow> bool" where
  "pages_within api size_limit =
     (\<forall>k cursor rs np. api k cursor = Page rs np \<longrightarrow> int (length rs) \<le> size_limit)"

text \<open>
  A job is in flight in a state when it is in the table with no error message and no
  results, neither failed nor completed, and the results directory is as it was at the
  start of the task; a run is in flight when its last state is.
\<close>

definition in_flight :: "job_manager \<Rightarrow> string \<Rightarrow> job_manager \<Rightarrow> bool" where
  "in_flight jm0 jid jm =
     ((case get_job jm jid of
         None \<Rightarrow> False
       | Some j \<Rightarrow> error j = None \<and> results j = None \<and> status j \<noteq> ''failed'' \<and> status j \<noteq> ''completed'')
      \<and> results_dir jm = results_dir jm0 \<and> writable jm = writable jm0)"

definition run_in_flight :: "job_manager \<Rightarrow> string \<Rightarrow> run \<Rightarrow> bool" where
  "run_in_flight jm0 jid r = (r \<noteq> [] \<and> in_flight jm0 jid (last r))"

text \<open>
  The progress values of a run are in order up to a bound: the run is not empty, the job
  is in its last state, and the trace of its progress starts at 0, never decreases and
  ends at or below the bound.
\<close>

definition progress_ok :: "string \<Rightarrow> int \<Rightarrow> run \<Rightarrow> bool" where
  "progress_ok jid bound r =
     (r \<noteq> [] \<and> get_job (last r) jid \<noteq> None \<and> hd (progress_trace jid r) = 0 \<and>
      sorted (progress_trace jid r) \<and> last (progress_trace jid r) \<le> bound)"

section \<open>Example values\<close>

definition example_job :: job_status where
  "example_job =
     \<lparr>job_id = ''j1'', status = ''fetching'', progress = 10, created_at = 1, updated_at = 2,
      query = ''q'', total_articles = None, error = Some ''boom'', results = None\<rparr>"

definition example_file :: stored_file where
  "example_file = \<lparr>content = Other_bytes, mtime = 3\<rparr>"

definition example_manager :: job_manager where
  "example_manager =
     \<lparr>jobs = [(''j1'', example_job)], max_jobs = 1,
      results_dir = [(''j1.json'', example_file), (''k.json'', example_file), (''j1.csv'', example_file)],
      writable = True\<rparr>"

definition example_falsy_args :: update_args where
  "example_falsy_args = no_args\<lparr>status_arg := Some [], error_arg := Some []\<rparr>"

definition empty_article :: article where
  "empty_article = \<lparr>article_id = None, title = None, link = None, relevance = None\<rparr>"

definition example_article :: "string \<Rightarrow> article" where
  "example_article n = \<lparr>article_id = Some n, title = None, link = Some n, relevance = None\<rparr>"

text \<open>\<^verbatim>\<open>json.loads\<close> on the three texts the examples use.\<close>

definition example_json_loads :: "string \<Rightarrow> json_value option" where
  "example_json_loads s =
     (if s = ''[{}]'' then Some (Json_array [Obj empty_article])
      else if s = ''[{}, {}]'' then Some (Json_array [Obj empty_article, Obj empty_article])
      else None)"

text \<open>
  A service whose first request times out, whose second answers with prose and whose
  later ones answer with an array of one object inside prose.
\<close>

definition example_reply :: "nat \<Rightarrow> article list \<Rightarrow> completion" where
  "example_reply k chunk =
     (if k = 0 then Raises ''timeout''
      else if k = 1 then Content (Some ''I cannot classify these.'')
      else Content (Some '' Result: [{}] ''))"

definition example_client :: llm_client where
  "example_client = \<lparr>sent = [], reply = example_reply\<rparr>"


text \<open>
  A service that answers every request with an array of one object, and one that answers
  every request with an array of two objects, whatever the chunk holds.
\<close>

definition one_object_client :: llm_client where
  "one_object_client = \<lparr>sent = [], reply = (\<lambda>k chunk. Content (Some '' Result: [{}] ''))\<rparr>"


text \<open>
  A manager whose table holds the job \<^verbatim>\<open>j1\<close> as \<^verbatim>\<open>create_job\<close> makes it, a request for
  one page of ten articles, and three settings of the services: a news API that answers
  with a page of one article and no cursor, with a completion service that answers with
  one object, or with one whose request times out; and a news API whose request times
  out with an empty message.
\<close>

definition fresh_manager :: job_manager where
  "fresh_manager =
     \<lparr>jobs = [(''j1'', new_job ''j1'' ''q'' 0)], max_jobs = 100, results_dir = [], writable = True\<rparr>"

definition example_request :: search_request where
  "example_request = \<lparr>req_query = ''q'', req_size = 10, req_max_pages = 1\<rparr>"

definition one_page :: news_api where
  "one_page k cursor = Page [example_article ''a''] None"

definition classifying_services :: services where
  "classifying_services =
     \<lparr>news = one_page, completions = one_object_client, json_loads = example_json_loads,
      clock = int\<rparr>"

definition unanswered_services :: services where
  "unanswered_services =
     \<lparr>news = one_page, completions = example_client, json_loads = example_json_loads,
      clock = int\<rparr>"





text \<open>
  A request for one page of one article, and a news API that answers it with a page of
  two.
\<close>

definition small_request :: search_request where
  "small_request = \<lparr>req_query = ''q'', req_size = 1, req_max_pages = 1\<rparr>"

definition two_article_page :: news_api where
  "two_article_page k cursor = Page [example_article ''a'', example_article ''b''] None"

definition oversized_services :: services where
  "oversized_services =
     \<lparr>news = two_article_page, completions = example_client, json_loads = example_json_loads,
      clock = int\<rparr>"

section \<open>Properties of the duplicate removal\<close>

lemma remove_duplicates_loop_acc:
  "remove_duplicates_loop seen u xs = u @ remove_duplicates_loop seen [] xs"
proof (induction xs arbitrary: seen u)
  case Nil
  show ?case by simp
next
  case (Cons a xs)
  show ?case
    using Cons.IH [of "insert (get_link a) seen" "u @ [a]"]
      Cons.IH [of "insert (get_link a) seen" "[a]"] Cons.IH [of seen u]
    by (simp add: Let_def)
qed

lemma remove_duplicates_loop_nths:
  "remove_duplicates_loop seen [] xs =
     nths xs {i. i < length xs \<and> get_link (xs ! i) \<noteq> [] \<and> get_link (xs ! i) \<notin> seen \<and>
                 (\<forall>j < i. get_link (xs ! j) \<noteq> get_link (xs ! i))}"
proof (induction xs arbitrary: seen)
  case Nil
  show ?case by simp
next
  case (Cons a xs)
  let ?A = "\<lambda>s ys. {i. i < length ys \<and> get_link (ys ! i) \<noteq> [] \<and> get_link (ys ! i) \<notin> s \<and>
                 (\<forall>j < i. get_link (ys ! j) \<noteq> get_link (ys ! i))}"
  show ?case
  proof (cases "get_link a \<noteq> [] \<and> get_link a \<notin> seen")
    case True
    have shift: "{j. Suc j \<in> ?A seen (a # xs)} = ?A (insert (get_link a) seen) xs"
      by (auto simp: less_Suc_eq_0_disj all_conj_distrib)
    have zero: "0 \<in> ?A seen (a # xs)"
      using True by simp
    have "remove_duplicates_loop seen [] (a # xs)
            = [a] @ remove_duplicates_loop (insert (get_link a) seen) [] xs"
      using True remove_duplicates_loop_acc [of "insert (get_link a) seen" "[a]" xs]
      by (simp add: Let_def)
    also have "\<dots> = [a] @ nths xs (?A (insert (get_link a) seen) xs)"
      by (simp only: Cons.IH)
    also have "\<dots> = nths (a # xs) (?A seen (a # xs))"
      unfolding nths_Cons [of a xs "?A seen (a # xs)"] shift using zero by simp
    finally show ?thesis .
  next
    case False
    have shift: "{j. Suc j \<in> ?A seen (a # xs)} = ?A seen xs"
      using False by (auto simp: less_Suc_eq_0_disj all_conj_distrib)
    have zero: "0 \<notin> ?A seen (a # xs)"
      using False by auto
    have "remove_duplicates_loop seen [] (a # xs) = remove_duplicates_loop seen [] xs"
      using False by (auto simp: Let_def)
    also have "\<dots> = nths xs (?A seen xs)"
      by (simp only: Cons.IH)
    also have "\<dots> = nths (a # xs) (?A seen (a # xs))"
      unfolding nths_Cons [of a xs "?A seen (a # xs)"] shift using zero by simp
    finally show ?thesis .
  qed
qed

lemma remove_duplicates_loop_links:
  "distinct (map get_link (remove_duplicates_loop seen [] xs)) \<and>
   set (map get_link (remove_duplicates_loop seen [] xs)) = {l \<in> get_link ` set xs. l \<noteq> [] \<and> l \<notin> seen}"
proof (induction xs arbitrary: seen)
  case Nil
  show ?case by simp
next
  case (Cons a xs)
  show ?case
  proof (cases "get_link a \<noteq> [] \<and> get_link a \<notin> seen")
    case True
    have eq: "remove_duplicates_loop seen [] (a # xs)
            = a # remove_duplicates_loop (insert (get_link a) seen) [] xs"
      using True remove_duplicates_loop_acc [of "insert (get_link a) seen" "[a]" xs]
      by (simp add: Let_def)
    show ?thesis
      unfolding eq using Cons.IH [of "insert (get_link a) seen"] True by auto
  next
    case False
    have eq: "remove_duplicates_loop seen [] (a # xs) = remove_duplicates_loop seen [] xs"
      using False by (auto simp: Let_def)
    show ?thesis
      unfolding eq using Cons.IH [of seen] False by auto
  qed
qed

lemma remove_duplicates_loop_subseq: "subseq (remove_duplicates_loop seen [] xs) xs"
proof (induction xs arbitrary: seen)
  case Nil
  show ?case by simp
next
  case (Cons a xs)
  show ?case
    using Cons.IH [of seen] Cons.IH [of "insert (get_link a) seen"]
      remove_duplicates_loop_acc [of "insert (get_link a) seen" "[a]" xs]
    by (auto simp: Let_def)
qed

text \<open>
  Claim C1, as the code has it: the result is the subsequence of the input at the
  positions of the first occurrence of each non-empty link (compared as strings, so
  case-sensitively); its links are pairwise distinct and are exactly the non-empty links
  of the input, so its length is the number of distinct non-empty links; and no article
  with an empty or missing link is in it (such articles are dropped, not kept).
\<close>

theorem remove_duplicates_first_occurrences:
  "remove_duplicates xs = nths xs (first_occurrences xs) \<and>
   subseq (remove_duplicates xs) xs \<and>
   distinct (map get_link (remove_duplicates xs)) \<and>
   set (map get_link (remove_duplicates xs)) = nonempty_links xs \<and>
   length (remove_duplicates xs) = card (nonempty_links xs) \<and>
   empty_link_entries (remove_duplicates xs) = []"
proof -
  have nths: "remove_duplicates xs = nths xs (first_occurrences xs)"
    using remove_duplicates_loop_nths [of "{}" xs]
    by (simp add: remove_duplicates_def first_occurrences_def)
  have sub: "subseq (remove_duplicates xs) xs"
    by (simp add: remove_duplicates_def remove_duplicates_loop_subseq)
  have links: "distinct (map get_link (remove_duplicates xs))"
      "set (map get_link (remove_duplicates xs)) = nonempty_links xs"
    using remove_duplicates_loop_links [of "{}" xs]
    by (simp_all add: remove_duplicates_def nonempty_links_def)
  have len: "length (remove_duplicates xs) = card (nonempty_links xs)"
    using distinct_card [OF links(1)] links(2) by simp
  have "\<forall>a \<in> set (remove_duplicates xs). get_link a \<noteq> []"
    using links(2) by (auto simp: nonempty_links_def)
  then have none: "empty_link_entries (remove_duplicates xs) = []"
    by (simp add: empty_link_entries_def filter_empty_conv)
  from nths sub links len none show ?thesis by blast
qed

theorem remove_duplicates_first_occurrences_witness:
  "nths [\<lparr>article_id = Some ''1'', title = Some ''t'', link = Some ''u'', relevance = None\<rparr>,
         \<lparr>article_id = Some ''2'', title = Some ''t'', link = Some ''U'', relevance = None\<rparr>,
         \<lparr>article_id = Some ''3'', title = Some ''t'', link = Some ''u'', relevance = None\<rparr>]
     (first_occurrences
        [\<lparr>article_id = Some ''1'', title = Some ''t'', link = Some ''u'', relevance = None\<rparr>,
         \<lparr>article_id = Some ''2'', title = Some ''t'', link = Some ''U'', relevance = None\<rparr>,
         \<lparr>article_id = Some ''3'', title = Some ''t'', link = Some ''u'', relevance = None\<rparr>])
   = [\<lparr>article_id = Some ''1'', title = Some ''t'', link = Some ''u'', relevance = None\<rparr>,
      \<lparr>article_id = Some ''2'', title = Some ''t'', link = Some ''U'', relevance = None\<rparr>]"
  using remove_duplicates_first_occurrences
    [of "[\<lparr>article_id = Some ''1'', title = Some ''t'', link = Some ''u'', relevance = None\<rparr>,
          \<lparr>article_id = Some ''2'', title = Some ''t'', link = Some ''U'', relevance = None\<rparr>,
          \<lparr>article_id = Some ''3'', title = Some ''t'', link = Some ''u'', relevance = None\<rparr>]"]
  by (simp add: remove_duplicates_def get_link_def)

text \<open>
  Claim C1 as stated fails: an article without a link is not kept, so the length is not
  the number of distinct non-empty links plus the number of empty-link entries.
\<close>

theorem remove_duplicates_empty_link_counterexample:
  "remove_duplicates
     [\<lparr>article_id = Some ''1'', title = Some ''t'', link = Some [], relevance = None\<rparr>,
      \<lparr>article_id = Some ''2'', title = Some ''t'', link = None, relevance = None\<rparr>] = [] \<and>
   length (remove_duplicates
     [\<lparr>article_id = Some ''1'', title = Some ''t'', link = Some [], relevance = None\<rparr>,
      \<lparr>article_id = Some ''2'', title = Some ''t'', link = None, relevance = None\<rparr>])
   \<noteq> card (nonempty_links
     [\<lparr>article_id = Some ''1'', title = Some ''t'', link = Some [], relevance = None\<rparr>,
      \<lparr>article_id = Some ''2'', title = Some ''t'', link = None, relevance = None\<rparr>])
     + length (empty_link_entries
     [\<lparr>article_id = Some ''1'', title = Some ''t'', link = Some [], relevance = None\<rparr>,
      \<lparr>article_id = Some ''2'', title = Some ''t'', link = None, relevance = None\<rparr>])"
  by (simp add: remove_duplicates_def get_link_def nonempty_links_def empty_link_entries_def)

section \<open>Properties of the relevance sort\<close>

text \<open>
  Claim C4: the sort returns a permutation of its input, in non-decreasing rank, where
  the rank is 0 for Very Relevant, 1 for Relevant, 2 for Not Relevant and 3 for any other
  or missing label, and the articles of each rank keep their input order.
\<close>

theorem sort_by_relevance_stable:
  "mset (sort_by_relevance xs) = mset xs \<and>
   sorted (map relevance_key (sort_by_relevance xs)) \<and>
   filter (\<lambda>x. relevance_key x = k) (sort_by_relevance xs) = filter (\<lambda>x. relevance_key x = k) xs \<and>
   relevance_key x =
     (if relevance x = Some ''Very Relevant'' then 0
      else if relevance x = Some ''Relevant'' then 1
      else if relevance x = Some ''Not Relevant'' then 2 else 3)"
proof -
  have perm: "mset (sort_by_relevance xs) = mset xs"
    by (simp add: sort_by_relevance_def)
  have ord: "sorted (map relevance_key (sort_by_relevance xs))"
    by (simp add: sort_by_relevance_def)
  have stable: "filter (\<lambda>x. relevance_key x = k) (sort_by_relevance xs)
      = filter (\<lambda>x. relevance_key x = k) xs"
    by (simp add: sort_by_relevance_def sort_key_stable)
  have rank: "relevance_key x =
     (if relevance x = Some ''Very Relevant'' then 0
      else if relevance x = Some ''Relevant'' then 1
      else if relevance x = Some ''Not Relevant'' then 2 else 3)"
    by (cases "relevance x") (simp_all add: relevance_key_def relevance_order_def)
  from perm ord stable rank show ?thesis by blast
qed

section \<open>Properties of the chunked analysis\<close>

lemma analyze_chunk_eq:
  "analyze_chunk jl cl chunk =
     ((case reply cl (length (sent cl)) chunk of
         Raises e \<Rightarrow> Inl e
       | Content t \<Rightarrow> if \<not> truthy t then Inr (Json_array [])
                       else Inr (extract_json jl (strip (the t)))),
      cl\<lparr>sent := sent cl @ [chunk]\<rparr>)"
  by (simp add: analyze_chunk_def chat_completions_create_def split: completion.splits)

lemma analyze_chunks_step:
  "analyze_chunks jl cl acc (chunk # chunks) =
     analyze_chunks jl (cl\<lparr>sent := sent cl @ [chunk]\<rparr>)
       (acc @ contribution jl (reply cl (length (sent cl)) chunk)) chunks"
  by (simp add: analyze_chunk_eq contribution_def extend_with_def
      split: completion.splits sum.splits json_value.splits)

lemma contributions_Cons:
  "contributions jl cl (chunk # chunks) =
     contribution jl (reply cl (length (sent cl)) chunk)
       # contributions jl (cl\<lparr>sent := sent cl @ [chunk]\<rparr>) chunks"
  by (simp add: contributions_def enumerate_simps)

lemma analyze_chunks_all:
  "analyze_chunks jl cl acc chunks =
     (cl\<lparr>sent := sent cl @ chunks\<rparr>, acc @ concat (contributions jl cl chunks))"
proof (induction chunks arbitrary: cl acc)
  case Nil
  show ?case by (simp add: contributions_def)
next
  case (Cons chunk chunks)
  show ?case
    unfolding analyze_chunks_step contributions_Cons Cons.IH by simp
qed


lemma analyze_articles_eq:
  "chunk_size \<noteq> 0 \<Longrightarrow>
   analyze_articles jl cl articles chunk_size =
     (sort_classified (concat (contributions jl cl (chunk_list chunk_size articles))),
      cl\<lparr>sent := sent cl @ chunk_list chunk_size articles\<rparr>)"
  by (simp add: analyze_articles_def analyze_chunks_all)





lemma ex_strip: "json_candidate (strip '' Result: [{}] '') = ''[{}]''"
  by (simp add: json_candidate_def strip_def re_search_array_def is_space_def)



lemma chunk_starts_count:
  "0 < k \<Longrightarrow> length (chunk_starts n (int k)) = (n + k - 1) div k"
  by (simp add: chunk_starts_def)









lemma one_object_contribution:
  "contribution example_json_loads (reply one_object_client k chunk) = [Obj empty_article]"
  by (simp add: one_object_client_def contribution_def truthy_def extract_json_def ex_strip
      example_json_loads_def extend_with_def)

lemma contributions_const:
  assumes "\<And>k chunk. contribution jl (reply cl k chunk) = v"
  shows "contributions jl cl chunks = map (\<lambda>c. v) chunks"
  using assms
proof (induction chunks arbitrary: cl)
  case Nil
  show ?case by (simp add: contributions_def)
next
  case (Cons chunk chunks)
  have "contributions jl (cl\<lparr>sent := sent cl @ [chunk]\<rparr>) chunks = map (\<lambda>c. v) chunks"
    by (rule Cons.IH) (simp add: Cons.prems)
  then show ?case
    unfolding contributions_Cons by (simp add: Cons.prems)
qed

lemma one_object_contributions:
  "contributions example_json_loads one_object_client chunks = map (\<lambda>c. [Obj empty_article]) chunks"
  by (rule contributions_const) (rule one_object_contribution)





section \<open>Properties of the progress formula\<close>

lemma round_half_even_bounds: "\<lfloor>x\<rfloor> \<le> round_half_even x \<and> round_half_even x \<le> \<lfloor>x\<rfloor> + 1"
  by (simp add: round_half_even_def Let_def)

lemma round_half_even_of_int: "round_half_even (of_int n) = n"
  by (simp add: round_half_even_def Let_def)

lemma round_half_even_mono:
  assumes "x \<le> y"
  shows "round_half_even x \<le> round_half_even y"
proof (cases "\<lfloor>x\<rfloor> < \<lfloor>y\<rfloor>")
  case True
  have "round_half_even x \<le> \<lfloor>x\<rfloor> + 1" using round_half_even_bounds [of x] by simp
  also have "\<dots> \<le> \<lfloor>y\<rfloor>" using True by simp
  also have "\<dots> \<le> round_half_even y" using round_half_even_bounds [of y] by simp
  finally show ?thesis .
next
  case False
  moreover have "\<lfloor>x\<rfloor> \<le> \<lfloor>y\<rfloor>" using assms by (rule floor_mono)
  ultimately have eq: "\<lfloor>x\<rfloor> = \<lfloor>y\<rfloor>" by simp
  then have "x - of_int \<lfloor>x\<rfloor> \<le> y - of_int \<lfloor>y\<rfloor>" using assms by simp
  then show ?thesis
    unfolding round_half_even_def Let_def eq by auto
qed

lemma round_half_even_le: "x \<le> of_int n \<Longrightarrow> round_half_even x \<le> n"
  using round_half_even_mono [of x "of_int n"] by (simp add: round_half_even_of_int)

lemma round_half_even_ge: "of_int n \<le> x \<Longrightarrow> n \<le> round_half_even x"
  using round_half_even_mono [of "of_int n" x] by (simp add: round_half_even_of_int)

lemma bit_length_bounds:
  "0 < n \<Longrightarrow> 2 ^ (bit_length n - 1) \<le> n \<and> n < 2 ^ bit_length n"
proof (induction n rule: bit_length.induct)
  case (1 n)
  let ?m = "n div 2"
  have b: "bit_length n = Suc (bit_length ?m)"
    using "1.prems" by (subst bit_length.simps) simp
  show ?case
  proof (cases "?m \<le> 0")
    case True
    then have "n = 1" using "1.prems" by simp
    moreover have "bit_length ?m = 0" using True by (subst bit_length.simps) simp
    ultimately show ?thesis using b by simp
  next
    case False
    then have m: "0 < ?m" by simp
    have ih: "2 ^ (bit_length ?m - 1) \<le> ?m" "?m < 2 ^ bit_length ?m"
      using "1.IH" "1.prems" m by simp_all
    have pos: "0 < bit_length ?m"
      using m by (subst bit_length.simps) simp
    then have p: "(2::int) ^ bit_length ?m = 2 * 2 ^ (bit_length ?m - 1)"
      by (cases "bit_length ?m") simp_all
    have lo: "2 * ?m \<le> n" by simp
    have hi: "n < 2 * ?m + 2" by simp
    have "(2::int) ^ bit_length ?m \<le> n" using p ih(1) lo by linarith
    moreover have "n < 2 * 2 ^ bit_length ?m" using ih(2) hi by linarith
    ultimately show ?thesis using b by simp
  qed
qed

lemma binade_bounds:
  assumes "0 < q"
  shows "2 powi (binade q) \<le> q \<and> q < 2 powi (binade q + 1)"
proof -
  obtain a b where ab: "quotient_of q = (a, b)" by (cases "quotient_of q")
  have bpos: "0 < b" using ab by (rule quotient_of_denom_pos)
  have q: "q = of_int a / of_int b" using ab by (rule quotient_of_div)
  have apos: "0 < a"
    using assms bpos unfolding q by (simp add: zero_less_divide_iff)
  define la where "la = bit_length a"
  define lb where "lb = bit_length b"
  define t where "t = int la - int lb"
  have fa: "2 ^ (la - 1) \<le> a \<and> a < 2 ^ la"
    unfolding la_def using apos by (rule bit_length_bounds)
  have fb: "2 ^ (lb - 1) \<le> b \<and> b < 2 ^ lb"
    unfolding lb_def using bpos by (rule bit_length_bounds)
  have la1: "1 \<le> la" using fa apos by (cases la) auto
  have lb1: "1 \<le> lb" using fb bpos by (cases lb) auto
  have A1: "(2::rat) ^ (la - 1) \<le> of_int a"
  proof -
    have "(of_int (2 ^ (la - 1)) :: rat) \<le> of_int a" using fa by (simp only: of_int_le_iff)
    then show ?thesis by simp
  qed
  have A2: "(of_int a :: rat) < 2 ^ la"
  proof -
    have "(of_int a :: rat) < of_int (2 ^ la)" using fa by (simp only: of_int_less_iff)
    then show ?thesis by simp
  qed
  have B1: "(2::rat) ^ (lb - 1) \<le> of_int b"
  proof -
    have "(of_int (2 ^ (lb - 1)) :: rat) \<le> of_int b" using fb by (simp only: of_int_le_iff)
    then show ?thesis by simp
  qed
  have B2: "(of_int b :: rat) < 2 ^ lb"
  proof -
    have "(of_int b :: rat) < of_int (2 ^ lb)" using fb by (simp only: of_int_less_iff)
    then show ?thesis by simp
  qed
  have bq: "(0::rat) < of_int b" using bpos by simp
  have up: "q < 2 powi (t + 1)"
  proof -
    have "t + 1 = int la - int (lb - 1)" using lb1 by (simp add: t_def)
    then have "(2::rat) powi (t + 1) = 2 ^ la / 2 ^ (lb - 1)"
      by (simp add: power_int_diff)
    moreover have "of_int a / of_int b < (2::rat) ^ la / 2 ^ (lb - 1)"
      using A2 B1 bq apos by (intro frac_less) simp_all
    ultimately show ?thesis by (simp add: q)
  qed
  have low: "2 powi (t - 1) < q"
  proof -
    have "t - 1 = int (la - 1) - int lb" using la1 by (simp add: t_def)
    then have "(2::rat) powi (t - 1) = 2 ^ (la - 1) / 2 ^ lb"
      by (simp add: power_int_diff)
    moreover have "(2::rat) ^ (la - 1) / 2 ^ lb < of_int a / of_int b"
      using A1 B2 bq by (intro frac_less2) simp_all
    ultimately show ?thesis by (simp add: q)
  qed
  have b: "binade q = (if 2 powi t \<le> q then t else t - 1)"
    by (simp add: binade_def ab Let_def t_def la_def lb_def)
  show ?thesis
  proof (cases "2 powi t \<le> q")
    case True
    then show ?thesis using up b by simp
  next
    case False
    then show ?thesis using low b by simp
  qed
qed

lemma binade_mono:
  assumes "0 < x" and "x \<le> y"
  shows "binade x \<le> binade y"
proof (rule ccontr)
  assume "\<not> binade x \<le> binade y"
  then have "binade y + 1 \<le> binade x" by simp
  then have "(2::rat) powi (binade y + 1) \<le> 2 powi (binade x)"
    by (intro power_int_increasing) simp_all
  also have "\<dots> \<le> x" using binade_bounds [OF assms(1)] by simp
  also have "\<dots> \<le> y" by (rule assms(2))
  finally show False using binade_bounds [of y] assms by simp
qed

lemma two_powi_add: "(2::rat) powi a * 2 powi b = 2 powi (a + b)"
  by (simp add: power_int_add)

lemma round_double_pos:
  assumes "0 < q"
  shows "round_double q = of_int (round_half_even (q * 2 powi (52 - binade q))) * 2 powi (binade q - 52)"
    and "2 ^ 52 \<le> round_half_even (q * 2 powi (52 - binade q))"
    and "round_half_even (q * 2 powi (52 - binade q)) \<le> 2 ^ 53"
proof -
  let ?e = "binade q"
  let ?s = "q * 2 powi (52 - ?e)"
  show "round_double q = of_int (round_half_even ?s) * 2 powi (?e - 52)"
    using assms by (simp add: round_double_def)
  have p: "(0::rat) < 2 powi (52 - ?e)" by simp
  have "2 powi ?e * 2 powi (52 - ?e) \<le> ?s"
    using binade_bounds [OF assms] p by (intro mult_right_mono) simp_all
  moreover have "(2::rat) powi ?e * 2 powi (52 - ?e) = of_int (2 ^ 52)"
    unfolding two_powi_add by simp
  ultimately have lo: "of_int (2 ^ 52) \<le> ?s" by (simp only:)
  have "?s < 2 powi (?e + 1) * 2 powi (52 - ?e)"
    using binade_bounds [OF assms] p by (intro mult_strict_right_mono) simp_all
  moreover have "(2::rat) powi (?e + 1) * 2 powi (52 - ?e) = of_int (2 ^ 53)"
    unfolding two_powi_add by simp
  ultimately have hi: "?s \<le> of_int (2 ^ 53)" by (simp only: less_imp_le)
  show "2 ^ 52 \<le> round_half_even ?s" using lo by (rule round_half_even_ge)
  show "round_half_even ?s \<le> 2 ^ 53" using hi by (rule round_half_even_le)
qed

lemma round_double_nonneg: "0 \<le> q \<Longrightarrow> 0 \<le> round_double q"
proof (cases "q = 0")
  case True
  then show ?thesis by (simp add: round_double_def)
next
  case False
  assume "0 \<le> q"
  then have q: "0 < q" using False by simp
  have "(0::int) \<le> 2 ^ 52" by simp
  then have "0 \<le> round_half_even (q * 2 powi (52 - binade q))"
    using round_double_pos(2) [OF q] by linarith
  then show ?thesis
    unfolding round_double_pos(1) [OF q] by (intro mult_nonneg_nonneg) simp_all
qed

lemma round_double_mono_pos:
  assumes "0 < x" and "x \<le> y"
  shows "round_double x \<le> round_double y"
proof -
  have y: "0 < y" using assms by simp
  let ?ex = "binade x" and ?ey = "binade y"
  let ?mx = "round_half_even (x * 2 powi (52 - ?ex))"
  let ?my = "round_half_even (y * 2 powi (52 - ?ey))"
  have le: "?ex \<le> ?ey" using assms by (rule binade_mono)
  show ?thesis
  proof (cases "?ex = ?ey")
    case True
    have "x * 2 powi (52 - ?ey) \<le> y * 2 powi (52 - ?ey)"
      using assms(2) by (intro mult_right_mono) simp_all
    then have "round_half_even (x * 2 powi (52 - ?ey)) \<le> ?my"
      by (rule round_half_even_mono)
    then have "(of_int (round_half_even (x * 2 powi (52 - ?ey))) :: rat) \<le> of_int ?my"
      by simp
    then have "of_int (round_half_even (x * 2 powi (52 - ?ey))) * 2 powi (?ey - 52)
        \<le> of_int ?my * (2::rat) powi (?ey - 52)"
      by (intro mult_right_mono) simp_all
    then show ?thesis
      unfolding round_double_pos(1) [OF assms(1)] round_double_pos(1) [OF y] True .
  next
    case False
    then have lt: "?ex + 1 \<le> ?ey" using le by simp
    have "(of_int ?mx :: rat) \<le> of_int (2 ^ 53)"
      using round_double_pos(3) [OF assms(1)] by (simp only: of_int_le_iff)
    then have "(of_int ?mx :: rat) \<le> 2 powi 53" by simp
    then have a1: "of_int ?mx * 2 powi (?ex - 52) \<le> (2::rat) powi 53 * 2 powi (?ex - 52)"
      by (intro mult_right_mono) simp_all
    have a2: "(2::rat) powi 53 * 2 powi (?ex - 52) = 2 powi (?ex + 1)"
      unfolding two_powi_add by (simp add: algebra_simps)
    have a3: "(2::rat) powi (?ex + 1) \<le> 2 powi ?ey"
      using lt by (intro power_int_increasing) simp_all
    have a4: "(2::rat) powi ?ey = 2 powi 52 * 2 powi (?ey - 52)"
      unfolding two_powi_add by simp
    have "(of_int (2 ^ 52) :: rat) \<le> of_int ?my"
      using round_double_pos(2) [OF y] by (simp only: of_int_le_iff)
    then have "(2::rat) powi 52 \<le> of_int ?my" by simp
    then have a5: "(2::rat) powi 52 * 2 powi (?ey - 52) \<le> of_int ?my * 2 powi (?ey - 52)"
      by (intro mult_right_mono) simp_all
    have "of_int ?mx * 2 powi (?ex - 52) \<le> of_int ?my * (2::rat) powi (?ey - 52)"
      using a1 a2 a3 a4 a5 by linarith
    then show ?thesis
      unfolding round_double_pos(1) [OF assms(1)] round_double_pos(1) [OF y] .
  qed
qed

lemma round_double_mono:
  assumes "0 \<le> x" and "x \<le> y"
  shows "round_double x \<le> round_double y"
proof (cases "x = 0")
  case True
  have "0 \<le> round_double y" using assms by (intro round_double_nonneg) simp
  then show ?thesis using True by (simp add: round_double_def)
next
  case False
  then have "0 < x" using assms(1) by simp
  then show ?thesis using assms(2) by (rule round_double_mono_pos)
qed

lemma round_double_1: "round_double 1 = 1"
  by code_simp

lemma round_double_30: "round_double 30 = 30"
  by code_simp

lemma fetch_share_mono:
  assumes "0 < d" and "0 \<le> c1" and "c1 \<le> c2"
  shows "fetch_progress c1 d \<le> fetch_progress c2 d"
proof -
  have d: "(0::rat) < of_int d" using assms(1) by simp
  have q0: "(0::rat) \<le> of_int c1 / of_int d" using assms(1,2) by simp
  have "(of_int c1 :: rat) / of_int d \<le> of_int c2 / of_int d"
    using assms(3) d by (simp add: divide_right_mono)
  then have t: "true_div c1 d \<le> true_div c2 d"
    unfolding true_div_def using q0 by (intro round_double_mono)
  have t0: "0 \<le> true_div c1 d"
    unfolding true_div_def using q0 by (rule round_double_nonneg)
  have "true_div c1 d * 30 \<le> true_div c2 d * 30" using t by simp
  moreover have "0 \<le> true_div c1 d * 30" using t0 by simp
  ultimately have m: "float_mul (true_div c1 d) 30 \<le> float_mul (true_div c2 d) 30"
    unfolding float_mul_def by (intro round_double_mono)
  have m0: "0 \<le> float_mul (true_div c1 d) 30"
    unfolding float_mul_def using t0 by (intro round_double_nonneg) simp
  have "py_int (float_mul (true_div c1 d) 30) \<le> py_int (float_mul (true_div c2 d) 30)"
    using m m0 by (simp add: py_int_def floor_mono)
  then show ?thesis by (simp add: fetch_progress_def)
qed

lemma fetch_progress_range:
  assumes "0 < d" and "0 \<le> c" and "c \<le> d"
  shows "10 \<le> fetch_progress c d \<and> fetch_progress c d \<le> 40"
proof -
  have q0: "(0::rat) \<le> of_int c / of_int d" using assms(1,2) by simp
  have q1: "(of_int c :: rat) / of_int d \<le> 1" using assms by simp
  have t0: "0 \<le> true_div c d"
    unfolding true_div_def using q0 by (rule round_double_nonneg)
  have "round_double (of_int c / of_int d) \<le> round_double 1"
    using q0 q1 by (rule round_double_mono)
  then have t1: "true_div c d \<le> 1" by (simp add: true_div_def round_double_1)
  have m0: "0 \<le> float_mul (true_div c d) 30"
    unfolding float_mul_def using t0 by (intro round_double_nonneg) simp
  have "round_double (true_div c d * 30) \<le> round_double 30"
    using t0 t1 by (intro round_double_mono) simp_all
  then have m1: "float_mul (true_div c d) 30 \<le> 30" by (simp add: float_mul_def round_double_30)
  have "0 \<le> py_int (float_mul (true_div c d) 30)" using m0 by (simp add: py_int_def)
  moreover have "py_int (float_mul (true_div c d) 30) \<le> 30"
  proof -
    have "\<lfloor>float_mul (true_div c d) 30\<rfloor> \<le> \<lfloor>30::rat\<rfloor>" using m1 by (rule floor_mono)
    then show ?thesis using m0 by (simp add: py_int_def)
  qed
  ultimately show ?thesis by (simp add: fetch_progress_def)
qed

section \<open>Properties of the job manager\<close>

lemma apply_args_fields:
  "status (apply_args u now job) =
     (if status_arg u = None \<or> status_arg u = Some [] then status job else the (status_arg u))"
  "progress (apply_args u now job) = (case progress_arg u of None \<Rightarrow> progress job | Some p \<Rightarrow> p)"
  "total_articles (apply_args u now job) =
     (case total_articles_arg u of None \<Rightarrow> total_articles job | Some n \<Rightarrow> Some n)"
  "error (apply_args u now job) =
     (if error_arg u = None \<or> error_arg u = Some [] then error job else error_arg u)"
  "results (apply_args u now job) = (case results_arg u of None \<Rightarrow> results job | Some r \<Rightarrow> Some r)"
  "updated_at (apply_args u now job) = now"
  "job_id (apply_args u now job) = job_id job"
  "created_at (apply_args u now job) = created_at job"
  "query (apply_args u now job) = query job"
  by (auto simp: apply_args_def truthy_def Let_def split: option.splits)

lemma jobs_save_results: "jobs (save_results jm jid rs q now) = jobs jm"
  by (simp add: save_results_def)

lemma update_job_found:
  assumes "map_of (jobs jm) jid = Some job"
  shows "fst (update_job jm jid u now) = Some (apply_args u now job)"
    and "jobs (snd (update_job jm jid u now)) = AList.update jid (apply_args u now job) (jobs jm)"
  using assms by (simp_all add: update_job_def Let_def jobs_save_results)

text \<open>
  Claim C9: for a job that is in the table, \<^verbatim>\<open>update_job\<close> returns the job and leaves
  every field whose argument is \<^verbatim>\<open>None\<close> as it was; an empty string for \<^verbatim>\<open>status\<close> or
  \<^verbatim>\<open>error\<close> leaves that field as it was too, so neither field can be set to an empty value
  nor reset to \<^verbatim>\<open>None\<close>; \<^verbatim>\<open>updated_at\<close> is set to the time of the call whatever the
  arguments are; the job's id, creation time and query, its place in the table and every
  other job stay as they were.
\<close>

theorem update_job_frame:
  assumes "map_of (jobs jm) jid = Some job"
  shows "fst (update_job jm jid u now) = Some (apply_args u now job) \<and>
    map_of (jobs (snd (update_job jm jid u now))) = (map_of (jobs jm))(jid \<mapsto> apply_args u now job) \<and>
    map fst (jobs (snd (update_job jm jid u now))) = map fst (jobs jm) \<and>
    status (apply_args u now job) =
      (if status_arg u = None \<or> status_arg u = Some [] then status job else the (status_arg u)) \<and>
    progress (apply_args u now job) = (case progress_arg u of None \<Rightarrow> progress job | Some p \<Rightarrow> p) \<and>
    total_articles (apply_args u now job) =
      (case total_articles_arg u of None \<Rightarrow> total_articles job | Some n \<Rightarrow> Some n) \<and>
    error (apply_args u now job) =
      (if error_arg u = None \<or> error_arg u = Some [] then error job else error_arg u) \<and>
    results (apply_args u now job) = (case results_arg u of None \<Rightarrow> results job | Some r \<Rightarrow> Some r) \<and>
    updated_at (apply_args u now job) = now \<and>
    job_id (apply_args u now job) = job_id job \<and>
    created_at (apply_args u now job) = created_at job \<and>
    query (apply_args u now job) = query job"
proof -
  have keys: "map fst (AList.update jid (apply_args u now job) (jobs jm)) = map fst (jobs jm)"
    using assms by (simp add: update_keys map_of_eq_Some_iff weak_map_of_SomeI domI dom_map_of_conv_image_fst[symmetric])
  show ?thesis
    using update_job_found [OF assms, of u now] keys
    by (simp add: apply_args_fields update_conv')
qed

theorem update_job_frame_witness:
  "map_of (jobs example_manager) ''j1'' = Some example_job \<and>
   fst (update_job example_manager ''j1'' example_falsy_args 7) = Some (example_job\<lparr>updated_at := 7\<rparr>) \<and>
   status (apply_args example_falsy_args 7 example_job) = ''fetching'' \<and>
   error (apply_args example_falsy_args 7 example_job) = Some ''boom''"
proof -
  have h: "map_of (jobs example_manager) ''j1'' = Some example_job"
    by (simp add: example_manager_def)
  show ?thesis
    using h update_job_frame [OF h, of example_falsy_args 7]
    by (simp add: example_falsy_args_def no_args_def example_job_def apply_args_def truthy_def)
qed

lemma remove_if_exists_filter: "remove_if_exists n d = filter (\<lambda>f. fst f \<noteq> n) d"
proof -
  have "AList.delete n d = filter (\<lambda>f. fst f \<noteq> n) d"
    by (induction d) auto
  moreover have "n \<notin> fst ` set d \<Longrightarrow> filter (\<lambda>f. fst f \<noteq> n) d = d"
    by (induction d) auto
  ultimately show ?thesis by (simp add: remove_if_exists_def)
qed

lemma delete_job_present:
  assumes "jid \<in> fst ` set (jobs jm)"
  shows "snd (delete_job jm jid) =
     jm\<lparr>jobs := filter (\<lambda>x. fst x \<noteq> jid) (jobs jm),
        results_dir := filter (\<lambda>f. fst f \<notin> result_files jid) (results_dir jm)\<rparr>"
proof -
  have j: "AList.delete jid (jobs jm) = filter (\<lambda>x. fst x \<noteq> jid) (jobs jm)"
  proof -
    have "AList.delete jid al = filter (\<lambda>x. fst x \<noteq> jid) al" for al :: "(string \<times> job_status) list"
      by (induction al) auto
    then show ?thesis .
  qed
  have f: "remove_if_exists (result_file jid ''xlsx'')
             (remove_if_exists (result_file jid ''csv'')
               (remove_if_exists (result_file jid ''json'') d))
      = filter (\<lambda>f. fst f \<notin> result_files jid) d" for d
    unfolding remove_if_exists_filter result_files_def
    by (induction d) auto
  show ?thesis using assms by (simp add: delete_job_def j f)
qed

lemma length_filter_key:
  "distinct (map fst al) \<Longrightarrow> k \<in> fst ` set al \<Longrightarrow>
   Suc (length (filter (\<lambda>x. fst x \<noteq> k) al)) = length al"
proof (induction al)
  case Nil
  then show ?case by simp
next
  case (Cons a al)
  show ?case
  proof (cases "fst a = k")
    case True
    then have "k \<notin> fst ` set al" using Cons.prems(1) by auto
    then have "filter (\<lambda>x. fst x \<noteq> k) al = al"
      by (induction al) auto
    then show ?thesis using True by simp
  next
    case False
    then show ?thesis using Cons by auto
  qed
qed

lemma oldest_job_least:
  assumes "table \<noteq> []"
  shows "oldest_job table \<in> set table"
    and "list_all (\<lambda>x. created_at (snd (oldest_job table)) \<le> created_at (snd x)) table"
proof -
  let ?f = "\<lambda>x. created_at (snd x)"
  let ?S = "sort_key ?f table"
  have ne: "?S \<noteq> []" using assms by (metis length_sort length_0_conv)
  then obtain v S' where S: "?S = v # S'" by (cases ?S) auto
  have v: "oldest_job table = v" by (simp add: oldest_job_def S)
  have "set ?S = set table" by simp
  then have mem: "set table = insert v (set S')" using S by simp
  have "sorted (map ?f ?S)" by simp
  then have le: "\<forall>y \<in> set S'. ?f v \<le> ?f y" unfolding S by simp
  show "oldest_job table \<in> set table" using v mem by simp
  show "list_all (\<lambda>x. created_at (snd (oldest_job table)) \<le> created_at (snd x)) table"
    unfolding v list_all_iff mem using le by simp
qed

lemma cleanup_one:
  assumes "distinct (map fst (jobs jm))" and "length (jobs jm) = Suc (max_jobs jm)"
  shows "cleanup_old_jobs jm =
     jm\<lparr>jobs := filter (\<lambda>x. fst x \<noteq> fst (oldest_job (jobs jm))) (jobs jm),
        results_dir := filter (\<lambda>f. fst f \<notin> result_files (fst (oldest_job (jobs jm)))) (results_dir jm)\<rparr>"
proof -
  have ne: "jobs jm \<noteq> []" using assms(2) by auto
  then have sne: "sorted_jobs jm \<noteq> []"
    by (metis sorted_jobs_def length_sort length_0_conv)
  have t: "take (Suc 0) (sorted_jobs jm) = [oldest_job (jobs jm)]"
    using sne by (cases "sorted_jobs jm") (simp_all add: oldest_job_def sorted_jobs_def)
  have "fst (oldest_job (jobs jm)) \<in> fst ` set (jobs jm)"
    using oldest_job_least(1) [OF ne] by simp
  then show ?thesis
    using assms(2) by (simp add: cleanup_old_jobs_def t delete_job_present)
qed

lemma update_fresh: "k \<notin> fst ` set al \<Longrightarrow> AList.update k v al = al @ [(k, v)]"
  by (induction al) auto

text \<open>
  Claim C8: \<^verbatim>\<open>create_job\<close> on a table that holds \<^verbatim>\<open>max_jobs\<close> jobs leaves a table of
  \<^verbatim>\<open>max_jobs\<close> jobs. When the id is new, exactly one job is evicted: the one that is
  first in the order of creation times among the jobs of the table and the new job; it
  is removed from the table and its json, csv and xlsx result files are removed from the
  results directory, and nothing else changes. (When the id is already in the table, its
  job is replaced and nothing is evicted.)
\<close>

theorem create_job_at_capacity:
  assumes "distinct (map fst (jobs jm))" and "length (jobs jm) = max_jobs jm"
  shows "length (jobs (snd (create_job jm jid q now))) = max_jobs jm \<and>
     fst (create_job jm jid q now) = new_job jid q now \<and>
     (if jid \<in> fst ` set (jobs jm)
      then snd (create_job jm jid q now) = jm\<lparr>jobs := AList.update jid (new_job jid q now) (jobs jm)\<rparr>
      else oldest_job (jobs jm @ [(jid, new_job jid q now)]) \<in> set (jobs jm @ [(jid, new_job jid q now)]) \<and>
           list_all (\<lambda>x. created_at (snd (oldest_job (jobs jm @ [(jid, new_job jid q now)])))
                           \<le> created_at (snd x)) (jobs jm @ [(jid, new_job jid q now)]) \<and>
           snd (create_job jm jid q now) =
             jm\<lparr>jobs := filter (\<lambda>x. fst x \<noteq> fst (oldest_job (jobs jm @ [(jid, new_job jid q now)])))
                           (jobs jm @ [(jid, new_job jid q now)]),
                results_dir := filter (\<lambda>f. fst f \<notin> result_files
                                   (fst (oldest_job (jobs jm @ [(jid, new_job jid q now)]))))
                                 (results_dir jm)\<rparr>)"
proof (cases "jid \<in> fst ` set (jobs jm)")
  case True
  have "map fst (AList.update jid (new_job jid q now) (jobs jm)) = map fst (jobs jm)"
    using True by (simp add: update_keys)
  then have len: "length (AList.update jid (new_job jid q now) (jobs jm)) = length (jobs jm)"
    by (rule map_eq_imp_length_eq)
  show ?thesis using True len assms(2) by (simp add: create_job_def Let_def)
next
  case False
  let ?T = "jobs jm @ [(jid, new_job jid q now)]"
  let ?jm1 = "jm\<lparr>jobs := ?T\<rparr>"
  have T: "AList.update jid (new_job jid q now) (jobs jm) = ?T"
    using False by (rule update_fresh)
  have d: "distinct (map fst (jobs ?jm1))" using assms(1) False by simp
  have l: "length (jobs ?jm1) = Suc (max_jobs ?jm1)" using assms(2) by simp
  have c: "snd (create_job jm jid q now) = cleanup_old_jobs ?jm1"
    using assms(2) by (simp add: create_job_def Let_def T)
  have ne: "?T \<noteq> []" by simp
  have mem: "fst (oldest_job ?T) \<in> fst ` set ?T"
    using oldest_job_least(1) [OF ne] by (rule imageI)
  have "Suc (length (filter (\<lambda>x. fst x \<noteq> fst (oldest_job ?T)) ?T)) = length ?T"
    using d mem by (intro length_filter_key) simp_all
  then have len: "length (filter (\<lambda>x. fst x \<noteq> fst (oldest_job ?T)) ?T) = max_jobs jm"
    using assms(2) by simp
  have eq: "cleanup_old_jobs ?jm1 =
     jm\<lparr>jobs := filter (\<lambda>x. fst x \<noteq> fst (oldest_job ?T)) ?T,
        results_dir := filter (\<lambda>f. fst f \<notin> result_files (fst (oldest_job ?T))) (results_dir jm)\<rparr>"
    using cleanup_one [OF d l] by simp
  have fst: "fst (create_job jm jid q now) = new_job jid q now"
    by (simp add: create_job_def Let_def)
  have jobs: "jobs (snd (create_job jm jid q now)) = filter (\<lambda>x. fst x \<noteq> fst (oldest_job ?T)) ?T"
    unfolding c eq by simp
  have l1: "length (jobs (snd (create_job jm jid q now))) = max_jobs jm"
    unfolding jobs by (rule len)
  have s1: "snd (create_job jm jid q now) =
     jm\<lparr>jobs := filter (\<lambda>x. fst x \<noteq> fst (oldest_job ?T)) ?T,
        results_dir := filter (\<lambda>f. fst f \<notin> result_files (fst (oldest_job ?T))) (results_dir jm)\<rparr>"
    unfolding c by (rule eq)
  from False l1 fst oldest_job_least [OF ne] s1 show ?thesis
    by (simp only: if_False simp_thms)
qed

theorem create_job_at_capacity_witness:
  "distinct (map fst (jobs example_manager)) \<and> length (jobs example_manager) = max_jobs example_manager \<and>
   length (jobs (snd (create_job example_manager ''j2'' ''q2'' 5))) = 1 \<and>
   oldest_job (jobs example_manager @ [(''j2'', new_job ''j2'' ''q2'' 5)]) = (''j1'', example_job) \<and>
   snd (create_job example_manager ''j2'' ''q2'' 5) =
     example_manager\<lparr>jobs := [(''j2'', new_job ''j2'' ''q2'' 5)],
                       results_dir := [(''k.json'', example_file)]\<rparr>"
proof -
  have h1: "distinct (map fst (jobs example_manager))"
    by (simp add: example_manager_def)
  have h2: "length (jobs example_manager) = max_jobs example_manager"
    by (simp add: example_manager_def)
  have old: "oldest_job (jobs example_manager @ [(''j2'', new_job ''j2'' ''q2'' 5)]) = (''j1'', example_job)"
    by (simp add: oldest_job_def example_manager_def example_job_def new_job_def)
  show ?thesis
    using h1 h2 old create_job_at_capacity [OF h1 h2, of "''j2''" "''q2''" 5]
    by (simp add: example_manager_def result_files_def result_file_def)
qed

lemma jobs_delete_job: "jobs (snd (delete_job m k)) = filter (\<lambda>y. fst y \<noteq> k) (jobs m)"
proof -
  have d: "AList.delete k al = filter (\<lambda>x. fst x \<noteq> k) al" for al :: "(string \<times> job_status) list"
    by (induction al) auto
  have n: "k \<notin> fst ` set al \<Longrightarrow> filter (\<lambda>x. fst x \<noteq> k) al = al" for al :: "(string \<times> job_status) list"
    by (induction al) auto
  show ?thesis by (simp add: delete_job_def d n)
qed

lemma max_jobs_delete_job: "max_jobs (snd (delete_job m k)) = max_jobs m"
  by (simp add: delete_job_def)

lemma fold_delete_jobs:
  "jobs (fold (\<lambda>x m. snd (delete_job m (fst x))) xs jm) = filter (\<lambda>y. fst y \<notin> fst ` set xs) (jobs jm) \<and>
   max_jobs (fold (\<lambda>x m. snd (delete_job m (fst x))) xs jm) = max_jobs jm"
proof (induction xs arbitrary: jm)
  case Nil
  show ?case by simp
next
  case (Cons x xs)
  have "filter (\<lambda>y. fst y \<notin> fst ` set xs) (filter (\<lambda>y. fst y \<noteq> fst x) (jobs jm))
      = filter (\<lambda>y. fst y \<notin> fst ` set (x # xs)) (jobs jm)"
    by (induction "jobs jm") (auto intro: filter_cong)
  then show ?case
    using Cons.IH [of "snd (delete_job jm (fst x))"]
    by (simp add: jobs_delete_job max_jobs_delete_job)
qed

lemma length_evict:
  assumes "distinct (map fst T)" and "k \<le> length T"
  shows "length (filter (\<lambda>y. fst y \<notin> fst ` set (take k (sort_key f T))) T) = length T - k"
proof -
  let ?S = "sort_key f T"
  let ?P = "\<lambda>y. fst y \<notin> fst ` set (take k ?S)"
  have "mset (map fst ?S) = mset (map fst T)" by simp
  then have dS: "distinct (map fst ?S)" using assms(1) by (metis mset_eq_imp_distinct_iff)
  have "mset (filter ?P T) = mset (filter ?P ?S)" by simp
  then have "length (filter ?P T) = length (filter ?P ?S)" by (metis size_mset)
  also have "filter ?P ?S = filter ?P (take k ?S) @ filter ?P (drop k ?S)"
    by (metis append_take_drop_id filter_append)
  also have "filter ?P (take k ?S) = []"
    by (auto simp: filter_empty_conv)
  also have "filter ?P (drop k ?S) = drop k ?S"
  proof -
    have "distinct (map fst (take k ?S @ drop k ?S))" using dS by simp
    then have "fst ` set (take k ?S) \<inter> fst ` set (drop k ?S) = {}"
      unfolding map_append distinct_append by simp
    then show ?thesis by (auto simp: filter_id_conv)
  qed
  finally show ?thesis by simp
qed

lemma cleanup_bound:
  assumes "distinct (map fst (jobs jm))"
  shows "length (jobs (cleanup_old_jobs jm)) \<le> max_jobs jm"
proof (cases "length (jobs jm) \<le> max_jobs jm")
  case True
  then show ?thesis by (simp add: cleanup_old_jobs_def)
next
  case False
  have "length (filter (\<lambda>y. fst y \<notin> fst ` set (take (length (jobs jm) - max_jobs jm)
          (sort_key (\<lambda>x. created_at (snd x)) (jobs jm)))) (jobs jm))
        = length (jobs jm) - (length (jobs jm) - max_jobs jm)"
    using assms by (intro length_evict) simp_all
  then show ?thesis
    using False by (simp add: cleanup_old_jobs_def Let_def fold_delete_jobs sorted_jobs_def)
qed

lemma create_job_bound:
  assumes "distinct (map fst (jobs jm))"
  shows "length (jobs (snd (create_job jm jid q now))) \<le> max_jobs jm"
proof -
  let ?jm1 = "jm\<lparr>jobs := AList.update jid (new_job jid q now) (jobs jm)\<rparr>"
  have d: "distinct (map fst (jobs ?jm1))" using assms by (simp add: distinct_update)
  show ?thesis
    using cleanup_bound [OF d] by (auto simp: create_job_def Let_def)
qed

lemma load_file_cases:
  "load_file e jm =
     (if loadable e
      then jm\<lparr>jobs := AList.update (loaded_id e)
                 (loaded_job (loaded_id e) (case content (snd e) of Json_object d \<Rightarrow> d) (mtime (snd e)))
                 (jobs jm)\<rparr>
      else jm)"
  by (cases "content (snd e)") (simp_all add: load_file_def loadable_def loaded_id_def Let_def)

lemma loaded_job_completed:
  "status (loaded_job i d t) = ''completed'' \<and> progress (loaded_job i d t) = 100"
  by (simp add: loaded_job_def Let_def)

lemma list_all_update:
  "list_all P al \<Longrightarrow> P (k, v) \<Longrightarrow> list_all P (AList.update k v al)"
  by (induction al) auto

lemma fold_load_file:
  "distinct (map fst (jobs jm)) \<Longrightarrow>
   list_all (\<lambda>x. status (snd x) = ''completed'' \<and> progress (snd x) = 100) (jobs jm) \<Longrightarrow>
   distinct (map fst (jobs (fold load_file dir jm))) \<and>
   set (map fst (jobs (fold load_file dir jm))) = set (map fst (jobs jm)) \<union> loaded_id ` set (filter loadable dir) \<and>
   list_all (\<lambda>x. status (snd x) = ''completed'' \<and> progress (snd x) = 100) (jobs (fold load_file dir jm)) \<and>
   max_jobs (fold load_file dir jm) = max_jobs jm \<and>
   results_dir (fold load_file dir jm) = results_dir jm \<and>
   writable (fold load_file dir jm) = writable jm"
proof (induction dir arbitrary: jm)
  case Nil
  then show ?case by simp
next
  case (Cons e dir)
  show ?case
  proof (cases "loadable e")
    case True
    let ?jm1 = "load_file e jm"
    have d: "distinct (map fst (jobs ?jm1))"
      using Cons.prems(1) True by (simp add: load_file_cases distinct_update)
    have a: "list_all (\<lambda>x. status (snd x) = ''completed'' \<and> progress (snd x) = 100) (jobs ?jm1)"
      using Cons.prems(2) True by (simp add: load_file_cases list_all_update loaded_job_completed)
    have k: "set (map fst (jobs ?jm1)) = insert (loaded_id e) (set (map fst (jobs jm)))"
      using True by (simp add: load_file_cases dom_update)
    have o: "max_jobs ?jm1 = max_jobs jm" "results_dir ?jm1 = results_dir jm" "writable ?jm1 = writable jm"
      using True by (simp_all add: load_file_cases)
    show ?thesis
      using Cons.IH [OF d a] True k o by auto
  next
    case False
    then have "load_file e jm = jm" by (simp add: load_file_cases)
    then show ?thesis using Cons.IH [OF Cons.prems] False by simp
  qed
qed

lemma str_replace_a:
  "str_replace ''.json'' [] (replicate k CHR ''a'' @ ''.json'') = replicate k CHR ''a''"
  by (induction k) simp_all

lemma snapshot_store_ids:
  "loaded_id ` set (filter loadable (snapshot_store n)) = (\<lambda>k. replicate (Suc k) CHR ''a'') ` {0..<n}"
proof -
  have l: "loadable (result_file (replicate (Suc k) CHR ''a'') ''json'',
               \<lparr>content = Json_object d, mtime = t\<rparr>)" for k d t
    by (simp add: loadable_def result_file_def suffix_def)
  have i: "loaded_id (result_file (replicate (Suc k) CHR ''a'') ''json'', f) = replicate (Suc k) CHR ''a''" for k f
    using str_replace_a [of "Suc k"] by (simp add: loaded_id_def result_file_def)
  show ?thesis
    unfolding snapshot_store_def by (simp add: l i filter_map o_def image_image del: replicate_Suc)
qed

lemma card_snapshot_store_ids:
  "card (loaded_id ` set (filter loadable (snapshot_store n))) = n"
proof -
  have "inj_on (\<lambda>k. replicate (Suc k) CHR ''a'') {0..<n}"
    by (rule inj_onI) (metis length_replicate old.nat.inject)
  then show ?thesis
    unfolding snapshot_store_ids by (simp add: card_image)
qed

lemma JobManager_init_table:
  "distinct (map fst (jobs (JobManager_init n dir w))) \<and>
   set (map fst (jobs (JobManager_init n dir w))) = loaded_id ` set (filter loadable dir) \<and>
   length (jobs (JobManager_init n dir w)) = card (loaded_id ` set (filter loadable dir)) \<and>
   list_all (\<lambda>x. status (snd x) = ''completed'' \<and> progress (snd x) = 100)
     (jobs (JobManager_init n dir w)) \<and>
   max_jobs (JobManager_init n dir w) = n \<and>
   results_dir (JobManager_init n dir w) = dir"
proof -
  let ?e = "\<lparr>jobs = [], max_jobs = n, results_dir = dir, writable = w\<rparr>"
  have f: "distinct (map fst (jobs (fold load_file dir ?e))) \<and>
     set (map fst (jobs (fold load_file dir ?e))) = set (map fst (jobs ?e)) \<union> loaded_id ` set (filter loadable dir) \<and>
     list_all (\<lambda>x. status (snd x) = ''completed'' \<and> progress (snd x) = 100) (jobs (fold load_file dir ?e)) \<and>
     max_jobs (fold load_file dir ?e) = max_jobs ?e \<and>
     results_dir (fold load_file dir ?e) = results_dir ?e \<and>
     writable (fold load_file dir ?e) = writable ?e"
    by (rule fold_load_file) simp_all
  have i: "JobManager_init n dir w = fold load_file dir ?e"
    by (simp add: JobManager_init_def load_existing_results_def)
  have d: "distinct (map fst (jobs (JobManager_init n dir w)))"
    and s: "set (map fst (jobs (JobManager_init n dir w))) = loaded_id ` set (filter loadable dir)"
    and a: "list_all (\<lambda>x. status (snd x) = ''completed'' \<and> progress (snd x) = 100)
      (jobs (JobManager_init n dir w))"
    and m: "max_jobs (JobManager_init n dir w) = n"
    and r: "results_dir (JobManager_init n dir w) = dir"
    using f unfolding i by simp_all
  have "length (map fst (jobs (JobManager_init n dir w))) = card (set (map fst (jobs (JobManager_init n dir w))))"
    using d by (simp only: distinct_card)
  then have l: "length (jobs (JobManager_init n dir w)) = card (loaded_id ` set (filter loadable dir))"
    unfolding s by simp
  from d s l a m r show ?thesis by blast
qed

text \<open>
  Claim C10: the startup scan never consults the capacity. It leaves the results
  directory as it found it and builds a table with one job, completed and at progress
  100, for each id that a loadable \<^verbatim>\<open>.json\<close> file of the directory yields, however many
  there are: on a directory of \<open>n + 1\<close> snapshots and capacity \<open>n\<close> the table holds
  \<open>n + 1\<close> jobs. \<^verbatim>\<open>create_job\<close> is where the bound is enforced: the table it leaves
  holds at most \<^verbatim>\<open>max_jobs\<close> jobs.
\<close>

theorem startup_ignores_capacity:
  assumes "distinct (map fst (jobs jm))"
  shows "distinct (map fst (jobs (JobManager_init n dir w))) \<and>
    set (map fst (jobs (JobManager_init n dir w))) = loaded_id ` set (filter loadable dir) \<and>
    length (jobs (JobManager_init n dir w)) = card (loaded_id ` set (filter loadable dir)) \<and>
    list_all (\<lambda>x. status (snd x) = ''completed'' \<and> progress (snd x) = 100)
      (jobs (JobManager_init n dir w)) \<and>
    max_jobs (JobManager_init n dir w) = n \<and>
    results_dir (JobManager_init n dir w) = dir \<and>
    length (jobs (JobManager_init n (snapshot_store (Suc n)) w)) = Suc n \<and>
    length (jobs (snd (create_job jm jid q now))) \<le> max_jobs jm"
proof -
  have x: "length (jobs (JobManager_init n (snapshot_store (Suc n)) w)) = Suc n"
    using JobManager_init_table [of n "snapshot_store (Suc n)" w]
    by (simp only: card_snapshot_store_ids)
  have c: "length (jobs (snd (create_job jm jid q now))) \<le> max_jobs jm"
    using assms by (rule create_job_bound)
  from JobManager_init_table [of n dir w] x c show ?thesis by blast
qed

theorem startup_ignores_capacity_witness:
  "distinct (map fst (jobs (JobManager_init 1 (snapshot_store (Suc 1)) True))) \<and>
   length (jobs (JobManager_init 1 (snapshot_store (Suc 1)) True)) = 2 \<and>
   max_jobs (JobManager_init 1 (snapshot_store (Suc 1)) True) = 1 \<and>
   length (jobs (snd (create_job (JobManager_init 1 (snapshot_store (Suc 1)) True) ''j'' ''q'' 9))) \<le> 1"
proof -
  have h0: "distinct (map fst (jobs example_manager))"
    by (simp add: example_manager_def)
  have h: "distinct (map fst (jobs (JobManager_init 1 (snapshot_store (Suc 1)) True)))"
    using startup_ignores_capacity [OF h0, of 1 "snapshot_store (Suc 1)" True] by simp
  show ?thesis
    using h startup_ignores_capacity [OF h, of 1 "snapshot_store (Suc 1)" True "''j''" "''q''" 9]
    by simp
qed

section \<open>Properties of the pipeline task\<close>

lemma fetch_pages_rule:
  assumes step: "\<And>pc cursor all st rs np st'.
      I pc all st \<Longrightarrow> int pc < max_pages \<Longrightarrow> api pc cursor = Page rs np \<Longrightarrow> rs \<noteq> [] \<Longrightarrow>
      cb (length (all @ rs)) st = Inr st' \<Longrightarrow> I (Suc pc) (all @ rs) st'"
    and init: "I pc all st"
  shows "\<exists>pc' all'. I pc' all' (snd (fetch_pages api (Some cb) max_pages pc np all st))"
  using step init
proof (induction api "Some cb" max_pages pc np all st rule: fetch_pages.induct)
  case (1 api max_pages page_count next_page all_articles st)
  let ?cur = "if truthy next_page then next_page else None"
  note stp = "1.prems"(1)
  note ini = "1.prems"(2)
  show ?case
  proof (cases "int page_count < max_pages")
    case False
    then show ?thesis using ini by (subst fetch_pages.simps) auto
  next
    case True
    show ?thesis
    proof (cases "api page_count ?cur")
      case (Request_raises e)
      then show ?thesis using True ini by (subst fetch_pages.simps) auto
    next
      case (Http_status_error c)
      then show ?thesis using True ini by (subst fetch_pages.simps) auto
    next
      case (Api_error m)
      then show ?thesis using True ini by (subst fetch_pages.simps) auto
    next
      case (Page rs np')
      show ?thesis
      proof (cases "rs = []")
        case True
        then show ?thesis using \<open>int page_count < max_pages\<close> Page ini
          by (subst fetch_pages.simps) auto
      next
        case False
        show ?thesis
        proof (cases "cb (length (all_articles @ rs)) st")
          case (Inl e)
          then show ?thesis using \<open>int page_count < max_pages\<close> Page False ini
            by (subst fetch_pages.simps) auto
        next
          case (Inr st')
          have I': "I (Suc page_count) (all_articles @ rs) st'"
            using ini \<open>int page_count < max_pages\<close> Page False Inr by (rule stp)
          show ?thesis
          proof (cases "truthy np'")
            case False
            then show ?thesis using \<open>int page_count < max_pages\<close> Page \<open>rs \<noteq> []\<close> Inr I'
              by (subst fetch_pages.simps) auto
          next
            case True
            have "\<exists>pc' all'. I pc' all'
                (snd (fetch_pages api (Some cb) max_pages (Suc page_count) np' (all_articles @ rs) st'))"
              using \<open>int page_count < max_pages\<close> Page \<open>rs \<noteq> []\<close> Inr True I' stp
              by (intro "1.hyps") auto
            then show ?thesis using \<open>int page_count < max_pages\<close> Page \<open>rs \<noteq> []\<close> Inr True
              by (subst fetch_pages.simps) auto
          qed
        qed
      qed
    qed
  qed
qed

lemma update_job_state:
  assumes "get_job jm jid = Some job"
  shows "get_job (snd (update_job jm jid u now)) jid = Some (apply_args u now job)"
    and "results_dir (snd (update_job jm jid u now)) =
      (if status_arg u = Some ''completed'' \<and> truthy (results_arg u) \<and> writable jm
       then AList.update (result_file jid ''json'')
              \<lparr>content = Json_object (snapshot jid (the (results_arg u)) (query job) now), mtime = now\<rparr>
              (results_dir jm)
       else results_dir jm)"
    and "writable (snd (update_job jm jid u now)) = writable jm"
  using assms
  by (simp_all add: update_job_def get_job_def Let_def save_results_def update_conv'
      apply_args_fields)

lemma last_do_update: "last (do_update sv jid u r) = snd (update_job (last r) jid u (clock sv (length r)))"
  by (simp add: do_update_def)

lemma do_update_in_flight:
  assumes "run_in_flight jm0 jid r"
    and "error_arg u = None" and "results_arg u = None"
    and "status_arg u = Some s" and "s \<noteq> ''failed''" and "s \<noteq> ''completed''" and "s \<noteq> []"
  shows "run_in_flight jm0 jid (do_update sv jid u r)"
proof -
  obtain j where j: "get_job (last r) jid = Some j"
    and f: "error j = None" "results j = None"
    and d: "results_dir (last r) = results_dir jm0" "writable (last r) = writable jm0"
    using assms(1) by (auto simp: run_in_flight_def in_flight_def split: option.splits)
  let ?t = "clock sv (length r)"
  have "in_flight jm0 jid (snd (update_job (last r) jid u ?t))"
    using assms(2-7) f d
    by (simp add: in_flight_def update_job_state [OF j] apply_args_fields truthy_def)
  then show ?thesis
    by (simp add: run_in_flight_def last_do_update) (simp add: do_update_def)
qed

lemma fetch_phase_in_flight:
  assumes "run_in_flight jm0 jid r"
  shows "run_in_flight jm0 jid
     (snd (fetch_pages api (Some (update_fetch_progress sv jid request)) max_pages pc np all r))"
proof -
  have step: "run_in_flight jm0 jid st'"
    if "run_in_flight jm0 jid st" "int k < max_pages" "api k cursor = Page rs np'" "rs \<noteq> []"
      "update_fetch_progress sv jid request (length (al @ rs)) st = Inr st'"
    for k cursor al st rs np' st'
  proof -
    have "st' = do_update sv jid (fetch_progress_args request (length (al @ rs))) st"
      using that(5) by (auto simp: update_fetch_progress_def split: if_splits)
    then show ?thesis
      using that(1) by (auto intro!: do_update_in_flight simp: fetch_progress_args_def no_args_def)
  qed
  show ?thesis
    using fetch_pages_rule [where I = "\<lambda>pc all r. run_in_flight jm0 jid r"
        and cb = "update_fetch_progress sv jid request" and api = api and max_pages = max_pages,
        OF step assms]
    by simp
qed

lemma fresh_in_flight:
  assumes "get_job jm jid = Some j0" and "status j0 = ''created''" and "error j0 = None"
    and "results j0 = None"
  shows "run_in_flight jm jid [jm]"
  using assms by (simp add: run_in_flight_def in_flight_def)

lemma try_body_cases:
  assumes "run_in_flight jm jid [jm]"
  shows "(\<exists>e r. try_body sv jid request jm = (Some e, r) \<and> run_in_flight jm jid r) \<or>
     (\<exists>r. try_body sv jid request jm = (None, do_update sv jid (failed_args ''No articles found'') r) \<and>
          run_in_flight jm jid r) \<or>
     (\<exists>cl r. try_body sv jid request jm = (None, do_update sv jid (completed_args cl) r) \<and>
          run_in_flight jm jid r)"
proof -
  let ?r1 = "do_update sv jid fetching_args [jm]"
  let ?cb = "update_fetch_progress sv jid request"
  let ?f = "fetch_pages (news sv) (Some ?cb) (req_max_pages request) 0 None [] ?r1"
  have r1: "run_in_flight jm jid ?r1"
    using assms by (auto intro!: do_update_in_flight simp: fetching_args_def no_args_def)
  have r2: "run_in_flight jm jid (snd ?f)"
    using r1 by (rule fetch_phase_in_flight)
  obtain x r2 where f: "?f = (x, r2)" by (cases ?f)
  have r2': "run_in_flight jm jid r2" using r2 f by simp
  show ?thesis
  proof (cases x)
    case (Inl e)
    then have "try_body sv jid request jm = (Some e, r2)"
      by (simp add: try_body_def fetch_articles_def f Let_def)
    then show ?thesis using r2' by blast
  next
    case (Inr all)
    show ?thesis
    proof (cases "remove_duplicates all = []")
      case True
      then have "try_body sv jid request jm = (None, do_update sv jid (failed_args ''No articles found'') r2)"
        using Inr by (simp add: try_body_def fetch_articles_def f Let_def)
      then show ?thesis using r2' by blast
    next
      case False
      let ?as = "remove_duplicates all"
      let ?r3 = "do_update sv jid (analyzing_args ?as) r2"
      have r3: "run_in_flight jm jid ?r3"
        using r2' by (auto intro!: do_update_in_flight simp: analyzing_args_def no_args_def)
      show ?thesis
      proof (cases "fst (analyze_articles (json_loads sv) (completions sv) ?as 15)")
        case (Inl e)
        then have "try_body sv jid request jm = (Some e, ?r3)"
          using Inr False by (simp add: try_body_def fetch_articles_def f Let_def)
        then show ?thesis using r3 by blast
      next
        case (Inr cl)
        then have "try_body sv jid request jm = (None, do_update sv jid (completed_args cl) ?r3)"
          using \<open>x = Inr all\<close> False by (simp add: try_body_def fetch_articles_def f Let_def)
        then show ?thesis using r3 by blast
      qed
    qed
  qed
qed

lemma do_update_failed:
  assumes "run_in_flight jm jid r"
  shows "\<exists>j. final_job jid (do_update sv jid (failed_args e) r) = Some j \<and>
    status j = ''failed'' \<and> progress j = 100 \<and> results j = None \<and>
    error j = (if e = [] then None else Some e) \<and>
    results_dir (last (do_update sv jid (failed_args e) r)) = results_dir jm"
proof -
  obtain j where j: "get_job (last r) jid = Some j"
    and f: "error j = None" "results j = None"
    and d: "results_dir (last r) = results_dir jm"
    using assms by (auto simp: run_in_flight_def in_flight_def split: option.splits)
  show ?thesis
    using f d
    by (simp add: final_job_def last_do_update update_job_state [OF j] apply_args_fields
        failed_args_def no_args_def)
qed

lemma do_update_completed:
  assumes "run_in_flight jm jid r"
  shows "\<exists>j. final_job jid (do_update sv jid (completed_args cl) r) = Some j \<and>
    status j = ''completed'' \<and> progress j = 100 \<and> results j = Some cl \<and>
    total_articles j = Some (int (length cl)) \<and> error j = None \<and>
    results_dir (last (do_update sv jid (completed_args cl) r)) =
      (if cl \<noteq> [] \<and> writable jm
       then AList.update (result_file jid ''json'')
              \<lparr>content = Json_object (snapshot jid cl (query j) (clock sv (length r))),
               mtime = clock sv (length r)\<rparr> (results_dir jm)
       else results_dir jm)"
proof -
  obtain j where j: "get_job (last r) jid = Some j"
    and f: "error j = None" "results j = None"
    and d: "results_dir (last r) = results_dir jm" "writable (last r) = writable jm"
    using assms by (auto simp: run_in_flight_def in_flight_def split: option.splits)
  show ?thesis
    using f d
    by (simp add: final_job_def last_do_update update_job_state [OF j] apply_args_fields
        completed_args_def no_args_def truthy_def)
qed

lemma one_page_fetch:
  "fetch_articles one_page (Some (update_fetch_progress sv jid example_request)) 1 r =
     (Inr [example_article ''a''], do_update sv jid (fetch_progress_args example_request 1) r)"
  by (simp add: fetch_articles_def fetch_pages.simps one_page_def update_fetch_progress_def
      example_request_def truthy_def remove_duplicates_def get_link_def example_article_def Let_def)

lemma unanswered_analysis:
  "fst (analyze_articles example_json_loads example_client [example_article ''a''] 15) = Inr []"
proof -
  have c: "chunk_list 15 [example_article ''a''] = [[example_article ''a'']]"
    by (simp add: chunk_list_def chunk_starts_def)
  have k: "contributions example_json_loads example_client [[example_article ''a'']] = [[]]"
    by (simp add: contributions_def enumerate_simps example_client_def example_reply_def
        contribution_def)
  show ?thesis
    by (simp add: analyze_articles_eq c k sort_classified_def sort_by_relevance_def)
qed

lemma classifying_analysis:
  "fst (analyze_articles example_json_loads one_object_client [example_article ''a''] 15) = Inr [empty_article]"
proof -
  have c: "chunk_list 15 [example_article ''a''] = [[example_article ''a'']]"
    by (simp add: chunk_list_def chunk_starts_def)
  show ?thesis
    by (simp add: analyze_articles_eq c one_object_contributions sort_classified_def sort_by_relevance_def)
qed

lemma fresh_manager_in_flight: "run_in_flight fresh_manager ''j1'' [fresh_manager]"
  by (simp add: run_in_flight_def in_flight_def get_job_def fresh_manager_def new_job_def)

lemma unanswered_try_body:
  "try_body unanswered_services ''j1'' example_request fresh_manager =
     (None, do_update unanswered_services ''j1'' (completed_args [])
       (do_update unanswered_services ''j1'' (analyzing_args [example_article ''a''])
         (do_update unanswered_services ''j1'' (fetch_progress_args example_request 1)
           (do_update unanswered_services ''j1'' fetching_args [fresh_manager]))))"
proof -
  have r: "req_max_pages example_request = 1" by (simp add: example_request_def)
  have s: "news unanswered_services = one_page" "completions unanswered_services = example_client"
    "json_loads unanswered_services = example_json_loads"
    by (simp_all add: unanswered_services_def)
  show ?thesis
    unfolding try_body_def Let_def r s one_page_fetch
    by (simp add: unanswered_analysis)
qed

lemma process_news_search_outcome:
  assumes "run_in_flight jm jid [jm]"
  shows "(\<exists>j e. final_job jid (process_news_search sv jid request jm) = Some j \<and>
        status j = ''failed'' \<and> progress j = 100 \<and> results j = None \<and>
        error j = (if e = [] then None else Some e) \<and>
        (e = ''No articles found'' \<and> fst (try_body sv jid request jm) = None \<or>
         fst (try_body sv jid request jm) = Some e) \<and>
        results_dir (last (process_news_search sv jid request jm)) = results_dir jm) \<or>
     (\<exists>j cl t. final_job jid (process_news_search sv jid request jm) = Some j \<and>
        status j = ''completed'' \<and> progress j = 100 \<and> results j = Some cl \<and>
        total_articles j = Some (int (length cl)) \<and> error j = None \<and>
        results_dir (last (process_news_search sv jid request jm)) =
          (if cl \<noteq> [] \<and> writable jm
           then AList.update (result_file jid ''json'')
                  \<lparr>content = Json_object (snapshot jid cl (query j) t), mtime = t\<rparr> (results_dir jm)
           else results_dir jm))"
proof -
  consider
    (raised) e r where "try_body sv jid request jm = (Some e, r)" "run_in_flight jm jid r"
  | (empty) r where "try_body sv jid request jm = (None, do_update sv jid (failed_args ''No articles found'') r)"
      "run_in_flight jm jid r"
  | (finished) cl r where "try_body sv jid request jm = (None, do_update sv jid (completed_args cl) r)"
      "run_in_flight jm jid r"
    using try_body_cases [OF assms, of sv request] by blast
  then show ?thesis
  proof cases
    case raised
    have p: "process_news_search sv jid request jm = do_update sv jid (failed_args e) r"
      by (simp add: process_news_search_def raised(1))
    show ?thesis
      using do_update_failed [OF raised(2), of sv e] raised(1) unfolding p by auto
  next
    case empty
    have p: "process_news_search sv jid request jm = do_update sv jid (failed_args ''No articles found'') r"
      by (simp add: process_news_search_def empty(1))
    show ?thesis
      using do_update_failed [OF empty(2), of sv "''No articles found''"] empty(1) unfolding p by auto
  next
    case finished
    have p: "process_news_search sv jid request jm = do_update sv jid (completed_args cl) r"
      by (simp add: process_news_search_def finished(1))
    show ?thesis
      using do_update_completed [OF finished(2), of sv cl] unfolding p by blast
  qed
qed

text \<open>
  Claim C2, as the code has it: a job that the task brings to \<^verbatim>\<open>completed\<close> has progress
  100, a results sequence that is not \<^verbatim>\<open>None\<close> and a total that is its length. When
  that sequence is not empty and the results directory accepts the write, the directory
  then holds the file of the job, a JSON object with the job's id and query, the
  sequence as \<^verbatim>\<open>articles\<close> and its length as \<^verbatim>\<open>total_articles\<close>; otherwise the
  directory is as it was before the task, so no snapshot is written for an empty sequence.
\<close>

theorem completed_job_persisted:
  assumes "get_job jm jid = Some j0" and "status j0 = ''created''" and "error j0 = None"
    and "results j0 = None"
    and "final_job jid (process_news_search sv jid request jm) = Some j"
    and "status j = ''completed''"
  shows "results j \<noteq> None \<and> total_articles j = Some (int (length (the (results j)))) \<and>
    progress j = 100 \<and>
    (if the (results j) \<noteq> [] \<and> writable jm
     then (case map_of (results_dir (last (process_news_search sv jid request jm)))
                  (result_file jid ''json'') of
             None \<Rightarrow> False
           | Some f \<Rightarrow>
               (case content f of
                  Other_bytes \<Rightarrow> False
                | Json_object d \<Rightarrow>
                    doc_job_id d = Some jid \<and> doc_query d = Some (query j) \<and>
                    doc_total_articles d = Some (int (length (the (results j)))) \<and>
                    doc_articles d = results j))
     else results_dir (last (process_news_search sv jid request jm)) = results_dir jm)"
proof -
  have fl: "run_in_flight jm jid [jm]"
    using assms(1-4) by (rule fresh_in_flight)
  have nf: "status j \<noteq> ''failed''" using assms(6) by simp
  from process_news_search_outcome [OF fl, of sv request] assms(5) nf
  obtain cl t where c: "results j = Some cl" "total_articles j = Some (int (length cl))"
      "progress j = 100"
      "results_dir (last (process_news_search sv jid request jm)) =
          (if cl \<noteq> [] \<and> writable jm
           then AList.update (result_file jid ''json'')
                  \<lparr>content = Json_object (snapshot jid cl (query j) t), mtime = t\<rparr> (results_dir jm)
           else results_dir jm)"
    by auto
  show ?thesis
    unfolding c by (simp add: update_conv' snapshot_def)
qed

lemma classifying_try_body:
  "try_body classifying_services ''j1'' example_request fresh_manager =
     (None, do_update classifying_services ''j1'' (completed_args [empty_article])
       (do_update classifying_services ''j1'' (analyzing_args [example_article ''a''])
         (do_update classifying_services ''j1'' (fetch_progress_args example_request 1)
           (do_update classifying_services ''j1'' fetching_args [fresh_manager]))))"
proof -
  have r: "req_max_pages example_request = 1" by (simp add: example_request_def)
  have s: "news classifying_services = one_page" "completions classifying_services = one_object_client"
    "json_loads classifying_services = example_json_loads"
    by (simp_all add: classifying_services_def)
  show ?thesis
    unfolding try_body_def Let_def r s one_page_fetch
    by (simp add: classifying_analysis)
qed

lemma one_page_in_flight:
  "run_in_flight fresh_manager ''j1''
       (do_update sv ''j1'' (analyzing_args as)
         (do_update sv ''j1'' (fetch_progress_args example_request 1)
           (do_update sv ''j1'' fetching_args [fresh_manager])))"
  using fresh_manager_in_flight
  by (auto intro!: do_update_in_flight
      simp: analyzing_args_def fetch_progress_args_def fetching_args_def no_args_def)

theorem completed_job_persisted_witness:
  "get_job fresh_manager ''j1'' = Some (new_job ''j1'' ''q'' 0) \<and>
   status (the (final_job ''j1''
     (process_news_search classifying_services ''j1'' example_request fresh_manager))) = ''completed'' \<and>
   results (the (final_job ''j1''
     (process_news_search classifying_services ''j1'' example_request fresh_manager))) = Some [empty_article] \<and>
   map_of (results_dir (last
     (process_news_search classifying_services ''j1'' example_request fresh_manager))) ''j1.json'' \<noteq> None"
proof -
  let ?R = "process_news_search classifying_services ''j1'' example_request fresh_manager"
  have h1: "get_job fresh_manager ''j1'' = Some (new_job ''j1'' ''q'' 0)"
    by (simp add: get_job_def fresh_manager_def)
  have h2: "status (new_job ''j1'' ''q'' 0) = ''created''" "error (new_job ''j1'' ''q'' 0) = None"
    "results (new_job ''j1'' ''q'' 0) = None"
    by (simp_all add: new_job_def)
  have p: "?R = do_update classifying_services ''j1'' (completed_args [empty_article])
       (do_update classifying_services ''j1'' (analyzing_args [example_article ''a''])
         (do_update classifying_services ''j1'' (fetch_progress_args example_request 1)
           (do_update classifying_services ''j1'' fetching_args [fresh_manager])))"
    by (simp add: process_news_search_def classifying_try_body)
  obtain j where j: "final_job ''j1'' ?R = Some j" "status j = ''completed''"
      "results j = Some [empty_article]"
    using do_update_completed [OF one_page_in_flight [of classifying_services "[example_article ''a'']"],
        of classifying_services "[empty_article]"]
    unfolding p by blast
  have w: "writable fresh_manager" by (simp add: fresh_manager_def)
  have "map_of (results_dir (last ?R)) ''j1.json'' \<noteq> None"
    using completed_job_persisted [OF h1 h2 j(1,2)] j(3) w
    by (auto simp: result_file_def split: option.splits)
  then show ?thesis using h1 j by simp
qed

text \<open>
  Claim C2 as stated fails for an empty classified sequence: the job is completed with
  the results \<^verbatim>\<open>[]\<close>, and the results directory, empty before the task, is empty after it.
\<close>

theorem completed_without_snapshot_counterexample:
  "status (the (final_job ''j1''
     (process_news_search unanswered_services ''j1'' example_request fresh_manager))) = ''completed'' \<and>
   results (the (final_job ''j1''
     (process_news_search unanswered_services ''j1'' example_request fresh_manager))) = Some [] \<and>
   results_dir fresh_manager = [] \<and>
   results_dir (last
     (process_news_search unanswered_services ''j1'' example_request fresh_manager)) = []"
proof -
  let ?R = "process_news_search unanswered_services ''j1'' example_request fresh_manager"
  have p: "?R = do_update unanswered_services ''j1'' (completed_args [])
       (do_update unanswered_services ''j1'' (analyzing_args [example_article ''a''])
         (do_update unanswered_services ''j1'' (fetch_progress_args example_request 1)
           (do_update unanswered_services ''j1'' fetching_args [fresh_manager])))"
    by (simp add: process_news_search_def unanswered_try_body)
  obtain j where j: "final_job ''j1'' ?R = Some j" "status j = ''completed''" "results j = Some []"
      "results_dir (last ?R) = results_dir fresh_manager"
    using do_update_completed [OF one_page_in_flight [of unanswered_services "[example_article ''a'']"],
        of unanswered_services "[]"]
    unfolding p by auto
  have d: "results_dir fresh_manager = []" by (simp add: fresh_manager_def)
  show ?thesis using j d by simp
qed


lemma status_trace_do_update:
  assumes "get_job (last r) jid = Some j"
  shows "status_trace jid (do_update sv jid u r) =
     status_trace jid r @ [status (apply_args u (clock sv (length r)) j)]"
    and "progress_trace jid (do_update sv jid u r) =
     progress_trace jid r @ [progress (apply_args u (clock sv (length r)) j)]"
  using update_job_state(1) [OF assms, of u "clock sv (length r)"]
  by (simp_all add: status_trace_def progress_trace_def job_trace_def do_update_def)





lemma fetching_in_flight:
  "run_in_flight fresh_manager ''j1'' (do_update sv ''j1'' fetching_args [fresh_manager])"
  using fresh_manager_in_flight
  by (auto intro!: do_update_in_flight simp: fetching_args_def no_args_def)





lemma sorted_le_last:
  fixes xs :: "int list"
  shows "sorted xs \<Longrightarrow> x \<in> set xs \<Longrightarrow> x \<le> last xs"
  by (induction xs) auto

lemma sorted_snoc_last:
  fixes xs :: "int list"
  assumes "sorted xs" and "last xs \<le> p"
  shows "sorted (xs @ [p])"
proof -
  have "\<forall>x \<in> set xs. x \<le> p"
    using sorted_le_last [OF assms(1)] assms(2) by fastforce
  then show ?thesis using assms(1) by (simp add: sorted_append)
qed

lemma progress_ok_update:
  assumes "progress_ok jid b r" and "progress_arg u = Some p" and "b \<le> p"
  shows "progress_ok jid p (do_update sv jid u r)"
proof -
  obtain j where j: "get_job (last r) jid = Some j" and ne: "r \<noteq> []"
    and h: "hd (progress_trace jid r) = 0" and s: "sorted (progress_trace jid r)"
    and l: "last (progress_trace jid r) \<le> b"
    using assms(1) by (auto simp: progress_ok_def)
  have p: "progress (apply_args u (clock sv (length r)) j) = p"
    using assms(2) by (simp add: apply_args_fields)
  have t: "progress_trace jid (do_update sv jid u r) = progress_trace jid r @ [p]"
    unfolding status_trace_do_update(2) [OF j] p ..
  have n: "progress_trace jid r \<noteq> []"
    using ne by (simp add: progress_trace_def job_trace_def)
  have g: "get_job (last (do_update sv jid u r)) jid \<noteq> None"
    by (simp add: last_do_update update_job_state(1) [OF j])
  have "sorted (progress_trace jid r @ [p])"
    using s l assms(3) by (intro sorted_snoc_last) simp_all
  then show ?thesis
    unfolding progress_ok_def t using n h g by (simp add: do_update_def)
qed

lemma progress_ok_weaken: "progress_ok jid b r \<Longrightarrow> b \<le> b' \<Longrightarrow> progress_ok jid b' r"
  by (auto simp: progress_ok_def)

lemma fetch_phase_progress:
  assumes size: "1 \<le> req_size request" and pages: "1 \<le> req_max_pages request"
    and within: "pages_within api (req_size request)"
    and init: "progress_ok jid 10 r"
  shows "progress_ok jid 40
     (snd (fetch_pages api (Some (update_fetch_progress sv jid request)) (req_max_pages request) 0 None [] r))"
proof -
  let ?d = "req_size request * req_max_pages request"
  let ?I = "\<lambda>(pc::nat) (all::article list) r.
      progress_ok jid (fetch_progress (int (length all)) ?d) r \<and>
      int (length all) \<le> int pc * req_size request \<and> int pc \<le> req_max_pages request"
  have d: "0 < ?d" using size pages by (simp add: zero_less_mult_iff)
  have step: "?I (Suc k) (al @ rs) st'"
    if "?I k al st" "int k < req_max_pages request" "api k cursor = Page rs np'" "rs \<noteq> []"
      "update_fetch_progress sv jid request (length (al @ rs)) st = Inr st'"
    for k cursor al st rs np' st'
  proof -
    have e: "st' = do_update sv jid (fetch_progress_args request (length (al @ rs))) st"
      using that(5) by (auto simp: update_fetch_progress_def split: if_splits)
    have a: "progress_arg (fetch_progress_args request (length (al @ rs)))
        = Some (fetch_progress (int (length (al @ rs))) ?d)"
      by (simp add: fetch_progress_args_def no_args_def)
    have m: "fetch_progress (int (length al)) ?d \<le> fetch_progress (int (length (al @ rs))) ?d"
      using d by (intro fetch_share_mono) simp_all
    have ok: "progress_ok jid (fetch_progress (int (length (al @ rs))) ?d) st'"
      unfolding e
    proof (rule progress_ok_update)
      show "progress_ok jid (fetch_progress (int (length al)) ?d) st" using that(1) by simp
      show "progress_arg (fetch_progress_args request (length (al @ rs)))
        = Some (fetch_progress (int (length (al @ rs))) ?d)" by (rule a)
      show "fetch_progress (int (length al)) ?d \<le> fetch_progress (int (length (al @ rs))) ?d" by (rule m)
    qed
    have "int (length rs) \<le> req_size request"
      using within that(3) by (auto simp: pages_within_def)
    then have "int (length (al @ rs)) \<le> int k * req_size request + req_size request"
      using that(1) by simp
    then have c: "int (length (al @ rs)) \<le> int (Suc k) * req_size request"
      by (simp add: algebra_simps)
    show ?thesis using ok c that(2) by simp
  qed
  have i0: "?I 0 [] r"
  proof -
    have "10 \<le> fetch_progress 0 ?d" using fetch_progress_range [of ?d 0] d by simp
    with init have "progress_ok jid (fetch_progress 0 ?d) r"
      by (rule progress_ok_weaken)
    then show ?thesis using pages by simp
  qed
  have ex: "\<exists>pc' all'. ?I pc' all'
      (snd (fetch_pages api (Some (update_fetch_progress sv jid request)) (req_max_pages request) 0 None [] r))"
  proof (rule fetch_pages_rule [where I = ?I])
    show "?I 0 [] r" by (rule i0)
  next
    fix pc cursor al st rs np st'
    assume "?I pc al st" "int pc < req_max_pages request" "api pc cursor = Page rs np" "rs \<noteq> []"
      "update_fetch_progress sv jid request (length (al @ rs)) st = Inr st'"
    then show "?I (Suc pc) (al @ rs) st'" by (rule step)
  qed
  obtain pc' all' where f: "?I pc' all'
      (snd (fetch_pages api (Some (update_fetch_progress sv jid request)) (req_max_pages request) 0 None [] r))"
    using ex by blast
  have "int (length all') \<le> int pc' * req_size request" using f by simp
  also have "\<dots> \<le> req_max_pages request * req_size request"
    using f size by (intro mult_right_mono) simp_all
  finally have c: "int (length all') \<le> ?d" by (simp add: mult.commute)
  have "fetch_progress (int (length all')) ?d \<le> 40"
    using fetch_progress_range [of ?d "int (length all')"] d c by simp
  moreover have "progress_ok jid (fetch_progress (int (length all')) ?d)
      (snd (fetch_pages api (Some (update_fetch_progress sv jid request)) (req_max_pages request) 0 None [] r))"
    using f by simp
  ultimately show ?thesis by (rule progress_ok_weaken [rotated])
qed

lemma process_news_search_progress:
  assumes "get_job jm jid = Some j0" and "progress j0 = 0"
    and "1 \<le> req_size request" and "1 \<le> req_max_pages request"
    and "pages_within (news sv) (req_size request)"
  shows "progress_ok jid 100 (process_news_search sv jid request jm)"
proof -
  let ?r1 = "do_update sv jid fetching_args [jm]"
  let ?cb = "update_fetch_progress sv jid request"
  let ?f = "fetch_pages (news sv) (Some ?cb) (req_max_pages request) 0 None [] ?r1"
  have r0: "progress_ok jid 0 [jm]"
    using assms(1,2) by (simp add: progress_ok_def progress_trace_def job_trace_def)
  have r1: "progress_ok jid 10 ?r1"
    using r0 by (rule progress_ok_update) (simp_all add: fetching_args_def no_args_def)
  have "progress_ok jid 40 (snd ?f)"
    using assms(3,4,5) r1 by (rule fetch_phase_progress)
  moreover obtain x r2 where f: "?f = (x, r2)" by (cases ?f)
  ultimately have r2: "progress_ok jid 40 r2" by simp
  have failed: "progress_ok jid 100 (do_update sv jid (failed_args e) r)"
    if "progress_ok jid b r" "b \<le> 100" for e r b
  proof (rule progress_ok_update)
    show "progress_ok jid b r" by (rule that(1))
    show "progress_arg (failed_args e) = Some 100" by (simp add: failed_args_def no_args_def)
    show "b \<le> 100" by (rule that(2))
  qed
  have tb: "progress_ok jid 100 (snd (try_body sv jid request jm))"
  proof (cases x)
    case (Inl e)
    then have "try_body sv jid request jm = (Some e, r2)"
      by (simp add: try_body_def fetch_articles_def f Let_def)
    then show ?thesis using progress_ok_weaken [OF r2, of 100] by simp
  next
    case (Inr all)
    show ?thesis
    proof (cases "remove_duplicates all = []")
      case True
      then have "try_body sv jid request jm = (None, do_update sv jid (failed_args ''No articles found'') r2)"
        using Inr by (simp add: try_body_def fetch_articles_def f Let_def)
      then show ?thesis using failed [OF r2] by simp
    next
      case False
      let ?as = "remove_duplicates all"
      let ?r3 = "do_update sv jid (analyzing_args ?as) r2"
      have r3: "progress_ok jid 50 ?r3"
        using r2 by (rule progress_ok_update) (simp_all add: analyzing_args_def no_args_def)
      show ?thesis
      proof (cases "fst (analyze_articles (json_loads sv) (completions sv) ?as 15)")
        case (Inl e)
        then have "try_body sv jid request jm = (Some e, ?r3)"
          using Inr False by (simp add: try_body_def fetch_articles_def f Let_def)
        then show ?thesis using progress_ok_weaken [OF r3, of 100] by simp
      next
        case (Inr cl)
        then have "try_body sv jid request jm = (None, do_update sv jid (completed_args cl) ?r3)"
          using \<open>x = Inr all\<close> False by (simp add: try_body_def fetch_articles_def f Let_def)
        moreover have "progress_ok jid 100 (do_update sv jid (completed_args cl) ?r3)"
          using r3 by (rule progress_ok_update) (simp_all add: completed_args_def no_args_def)
        ultimately show ?thesis by simp
      qed
    qed
  qed
  obtain out r where t: "try_body sv jid request jm = (out, r)" by (cases "try_body sv jid request jm")
  have r: "progress_ok jid 100 r" using tb t by simp
  show ?thesis
  proof (cases out)
    case None
    then show ?thesis using r by (simp add: process_news_search_def t)
  next
    case (Some e)
    then show ?thesis using failed [OF r, of e] by (simp add: process_news_search_def t)
  qed
qed

text \<open>
  Claim C3, as the code has it: for a job created at progress 0 and a request of at least
  one page of at least one article, when no page that the news API returns holds more
  articles than the page size asked for, the progress of the job never decreases along
  the task: it starts at 0 and ends at 100.
\<close>

theorem progress_non_decreasing:
  assumes "get_job jm jid = Some j0" and "status j0 = ''created''" and "progress j0 = 0"
    and "error j0 = None" and "results j0 = None"
    and "1 \<le> req_size request" and "1 \<le> req_max_pages request"
    and "pages_within (news sv) (req_size request)"
  shows "sorted (progress_trace jid (process_news_search sv jid request jm)) \<and>
    hd (progress_trace jid (process_news_search sv jid request jm)) = 0 \<and>
    last (progress_trace jid (process_news_search sv jid request jm)) = 100"
proof -
  let ?R = "process_news_search sv jid request jm"
  have ok: "progress_ok jid 100 ?R"
    using assms(1,3,6,7,8) by (rule process_news_search_progress)
  have fl: "run_in_flight jm jid [jm]"
    using assms(1,2,4,5) by (rule fresh_in_flight)
  obtain j where j: "final_job jid ?R = Some j" "progress j = 100"
    using process_news_search_outcome [OF fl, of sv request] by blast
  have ne: "?R \<noteq> []" using ok by (simp add: progress_ok_def)
  have "last (progress_trace jid ?R) = progress (the (get_job (last ?R) jid))"
    using ne by (simp add: progress_trace_def job_trace_def last_map)
  then have "last (progress_trace jid ?R) = 100"
    using j by (simp add: final_job_def)
  then show ?thesis using ok by (simp add: progress_ok_def)
qed

lemma progress_trace_step:
  assumes "run_in_flight jm jid r" and "progress_arg u = Some p"
  shows "progress_trace jid (do_update sv jid u r) = progress_trace jid r @ [p]"
proof -
  obtain j where j: "get_job (last r) jid = Some j"
    using assms(1) by (auto simp: run_in_flight_def in_flight_def split: option.splits)
  show ?thesis
    unfolding status_trace_do_update(2) [OF j] using assms(2) by (simp add: apply_args_fields)
qed

lemma one_page_progress_trace:
  assumes "fetch_progress_args request n = no_args\<lparr>status_arg := Some ''fetching'',
      progress_arg := Some p, total_articles_arg := Some (int n)\<rparr>"
  shows "progress_trace ''j1''
     (do_update sv ''j1'' (completed_args cl)
       (do_update sv ''j1'' (analyzing_args as)
         (do_update sv ''j1'' (fetch_progress_args request n)
           (do_update sv ''j1'' fetching_args [fresh_manager])))) = [0, 10, p, 50, 100]"
proof -
  let ?r1 = "do_update sv ''j1'' fetching_args [fresh_manager]"
  let ?r2 = "do_update sv ''j1'' (fetch_progress_args request n) ?r1"
  let ?r3 = "do_update sv ''j1'' (analyzing_args as) ?r2"
  have f0: "run_in_flight fresh_manager ''j1'' [fresh_manager]" by (rule fresh_manager_in_flight)
  have f1: "run_in_flight fresh_manager ''j1'' ?r1" by (rule fetching_in_flight)
  have f2: "run_in_flight fresh_manager ''j1'' ?r2"
    using f1 by (auto intro!: do_update_in_flight simp: assms no_args_def)
  have f3: "run_in_flight fresh_manager ''j1'' ?r3"
    using f2 by (auto intro!: do_update_in_flight simp: analyzing_args_def no_args_def)
  have t0: "progress_trace ''j1'' [fresh_manager] = [0]"
    by (simp add: progress_trace_def job_trace_def get_job_def fresh_manager_def new_job_def)
  have t1: "progress_trace ''j1'' ?r1 = [0, 10]"
    using progress_trace_step [OF f0, of fetching_args 10 sv]
    by (simp add: t0 fetching_args_def no_args_def)
  have t2: "progress_trace ''j1'' ?r2 = [0, 10, p]"
    using progress_trace_step [OF f1, of "fetch_progress_args request n" p sv]
    by (simp add: t1 assms no_args_def)
  have t3: "progress_trace ''j1'' ?r3 = [0, 10, p, 50]"
    using progress_trace_step [OF f2, of "analyzing_args as" 50 sv]
    by (simp add: t2 analyzing_args_def no_args_def)
  show ?thesis
    using progress_trace_step [OF f3, of "completed_args cl" 100 sv]
    by (simp add: t3 completed_args_def no_args_def)
qed

lemma fetch_progress_1_10: "fetch_progress 1 10 = 13"
  by code_simp

lemma fetch_progress_2_1: "fetch_progress 2 1 = 70"
  by code_simp

theorem progress_non_decreasing_witness:
  "get_job fresh_manager ''j1'' = Some (new_job ''j1'' ''q'' 0) \<and>
   pages_within (news classifying_services) (req_size example_request) \<and>
   progress_trace ''j1'' (process_news_search classifying_services ''j1'' example_request fresh_manager)
     = [0, 10, 13, 50, 100] \<and>
   sorted (progress_trace ''j1''
     (process_news_search classifying_services ''j1'' example_request fresh_manager))"
proof -
  let ?R = "process_news_search classifying_services ''j1'' example_request fresh_manager"
  have h1: "get_job fresh_manager ''j1'' = Some (new_job ''j1'' ''q'' 0)"
    by (simp add: get_job_def fresh_manager_def)
  have h2: "status (new_job ''j1'' ''q'' 0) = ''created''" "progress (new_job ''j1'' ''q'' 0) = 0"
    "error (new_job ''j1'' ''q'' 0) = None" "results (new_job ''j1'' ''q'' 0) = None"
    by (simp_all add: new_job_def)
  have h3: "1 \<le> req_size example_request" "1 \<le> req_max_pages example_request"
    by (simp_all add: example_request_def)
  have h4: "pages_within (news classifying_services) (req_size example_request)"
    by (simp add: pages_within_def classifying_services_def one_page_def example_request_def)
  have a: "fetch_progress_args example_request 1 = no_args\<lparr>status_arg := Some ''fetching'',
      progress_arg := Some 13, total_articles_arg := Some (int 1)\<rparr>"
    by (simp add: fetch_progress_args_def example_request_def fetch_progress_1_10)
  have t: "progress_trace ''j1'' ?R = [0, 10, 13, 50, 100]"
    unfolding process_news_search_def classifying_try_body
    using one_page_progress_trace [OF a] by simp
  show ?thesis
    using progress_non_decreasing [OF h1 h2 h3 h4] h1 h4 t by simp
qed

lemma two_page_fetch:
  "fetch_articles two_article_page (Some (update_fetch_progress sv jid small_request)) 1 r =
     (Inr [example_article ''a'', example_article ''b''],
      do_update sv jid (fetch_progress_args small_request 2) r)"
  by (simp add: fetch_articles_def fetch_pages.simps two_article_page_def update_fetch_progress_def
      small_request_def truthy_def remove_duplicates_def get_link_def example_article_def Let_def
      numeral_2_eq_2)

lemma oversized_analysis:
  "fst (analyze_articles example_json_loads example_client
         [example_article ''a'', example_article ''b''] 15) = Inr []"
proof -
  have c: "chunk_list 15 [example_article ''a'', example_article ''b'']
      = [[example_article ''a'', example_article ''b'']]"
    by (simp add: chunk_list_def chunk_starts_def)
  have k: "contributions example_json_loads example_client
      [[example_article ''a'', example_article ''b'']] = [[]]"
    by (simp add: contributions_def enumerate_simps example_client_def example_reply_def
        contribution_def)
  show ?thesis
    by (simp add: analyze_articles_eq c k sort_classified_def sort_by_relevance_def)
qed

text \<open>
  Claim C3 as stated fails when a page holds more articles than the request asked for:
  with one page of one article expected, a page of two puts the progress at 70 before
  the analysis sets it back to 50.
\<close>

theorem progress_decreases_counterexample:
  "progress_trace ''j1'' (process_news_search oversized_services ''j1'' small_request fresh_manager)
     = [0, 10, 70, 50, 100] \<and>
   \<not> sorted (progress_trace ''j1''
     (process_news_search oversized_services ''j1'' small_request fresh_manager))"
proof -
  have r: "req_max_pages small_request = 1" by (simp add: small_request_def)
  have s: "news oversized_services = two_article_page" "completions oversized_services = example_client"
    "json_loads oversized_services = example_json_loads"
    by (simp_all add: oversized_services_def)
  have tb: "try_body oversized_services ''j1'' small_request fresh_manager =
     (None, do_update oversized_services ''j1'' (completed_args [])
       (do_update oversized_services ''j1'' (analyzing_args [example_article ''a'', example_article ''b''])
         (do_update oversized_services ''j1'' (fetch_progress_args small_request 2)
           (do_update oversized_services ''j1'' fetching_args [fresh_manager]))))"
    unfolding try_body_def Let_def r s two_page_fetch
    by (simp add: oversized_analysis)
  have a: "fetch_progress_args small_request 2 = no_args\<lparr>status_arg := Some ''fetching'',
      progress_arg := Some 70, total_articles_arg := Some (int 2)\<rparr>"
    by (simp add: fetch_progress_args_def small_request_def fetch_progress_2_1)
  have t: "progress_trace ''j1''
      (process_news_search oversized_services ''j1'' small_request fresh_manager)
      = [0, 10, 70, 50, 100]"
    unfolding process_news_search_def tb
    using one_page_progress_trace [OF a] by simp
  show ?thesis unfolding t by simp
qed

end
